theory Spec2Isabelle
  imports Complex_Main "HOL-Library.AList" "HOL-Library.Sublist"
begin

section \<open>Plot entities\<close>

text \<open>
  The plot classes of \<^verbatim>\<open>plot_data/*.py\<close> as records. The inherited fields of
  \<^verbatim>\<open>Base2DPlotData\<close> (\<^verbatim>\<open>_id\<close>, \<^verbatim>\<open>_color\<close>, \<^verbatim>\<open>_update\<close>) are repeated in
  every record; the \<^verbatim>\<open>_type\<close> tag is the constructor of the datatype \<open>plot\<close> below.
  A coordinate is a real number: the operations modelled here only compare and copy
  coordinates, which is exact on every numeric float; NaN and the infinities have no
  counterpart. \<^verbatim>\<open>PointData2D.distance_to\<close> and the hit test of the view model built on
  it compute in floating point and are not modelled. Log calls are left out.
\<close>

record PointData2D =
  pt_id :: string
  pt_x :: real
  pt_y :: real
  pt_color :: string
  pt_deletable :: bool
  pt_update :: bool

record PolylineData2D =
  pl_id :: string
  pl_points :: "PointData2D list"
  pl_color :: string
  pl_update :: bool

record PolygonData2D =
  pg_id :: string
  pg_points :: "PointData2D list"
  pg_color :: string
  pg_closed :: bool
  pg_update :: bool

datatype plot = Point PointData2D | Polyline PolylineData2D | Polygon PolygonData2D

text \<open>\<^verbatim>\<open>PointData2D.__init__\<close>, with the argument order of the source.\<close>

definition PointData2D_init ::
  "string \<Rightarrow> real \<Rightarrow> real \<Rightarrow> string \<Rightarrow> bool \<Rightarrow> bool \<Rightarrow> PointData2D" where
  "PointData2D_init i x y color deletable update =
     \<lparr>pt_id = i, pt_x = x, pt_y = y, pt_color = color,
      pt_deletable = deletable, pt_update = update\<rparr>"

text \<open>Python's \<^verbatim>\<open>s.endswith(suf)\<close>, \<^verbatim>\<open>xs.insert(i, x)\<close> and \<^verbatim>\<open>del xs[i]\<close>
  (the last two for an index within the list, which is all the source uses).\<close>

definition endswith :: "string \<Rightarrow> string \<Rightarrow> bool" where
  "endswith s suf \<longleftrightarrow> length suf \<le> length s \<and> drop (length s - length suf) s = suf"

definition list_insert :: "nat \<Rightarrow> 'a \<Rightarrow> 'a list \<Rightarrow> 'a list" where
  "list_insert i x xs = take i xs @ x # drop i xs"

definition list_del :: "nat \<Rightarrow> 'a list \<Rightarrow> 'a list" where
  "list_del i xs = take i xs @ drop (Suc i) xs"

subsection \<open>Polygon\<close>

text \<open>The point that \<^verbatim>\<open>_ensure_closed\<close> synthesises from the first point.\<close>

definition closing_point :: "PointData2D \<Rightarrow> PointData2D" where
  "closing_point first_point =
     PointData2D_init (pt_id first_point @ ''_close'') (pt_x first_point) (pt_y first_point)
       (pt_color first_point) False True"

text \<open>\<^verbatim>\<open>PolygonData2D._ensure_closed\<close>. \<open>hd\<close> and \<open>last\<close> are only read on a list of
  at least three points.\<close>

definition ensure_closed :: "PolygonData2D \<Rightarrow> PolygonData2D" where
  "ensure_closed g =
     (if length (pg_points g) \<ge> 3 \<and> \<not> pg_closed g then
        (let first_point = hd (pg_points g); last_point = last (pg_points g) in
           (if pt_x first_point \<noteq> pt_x last_point \<or> pt_y first_point \<noteq> pt_y last_point
            then g\<lparr>pg_points := pg_points g @ [closing_point first_point], pg_closed := True\<rparr>
            else g\<lparr>pg_closed := True\<rparr>))
      else g)"

text \<open>\<^verbatim>\<open>PolygonData2D.__init__\<close>.\<close>

definition PolygonData2D_init ::
  "string \<Rightarrow> PointData2D list \<Rightarrow> string \<Rightarrow> bool \<Rightarrow> PolygonData2D" where
  "PolygonData2D_init i points color update =
     (let g = \<lparr>pg_id = i, pg_points = points, pg_color = color,
                pg_closed = False, pg_update = update\<rparr>
      in if length points \<ge> 3 then ensure_closed g else g)"

text \<open>\<^verbatim>\<open>PolygonData2D.add_point\<close>.\<close>

definition add_point :: "PointData2D \<Rightarrow> PolygonData2D \<Rightarrow> PolygonData2D" where
  "add_point point g =
     (if pg_closed g \<and> length (pg_points g) \<ge> 3 then
        (let insert_index = length (pg_points g) - 1 in
           g\<lparr>pg_points := list_insert insert_index point (pg_points g), pg_update := True\<rparr>)
      else
        (let g1 = g\<lparr>pg_points := pg_points g @ [point]\<rparr>;
             g2 = (if length (pg_points g1) \<ge> 3 then ensure_closed g1 else g1)
         in g2\<lparr>pg_update := True\<rparr>))"

text \<open>The \<^verbatim>\<open>for i, point in enumerate(self._points)\<close> loop of \<^verbatim>\<open>remove_point\<close>
  stops at the first point whose id matches: \<open>index_of_id\<close> is that index.\<close>

fun index_of_id :: "string \<Rightarrow> PointData2D list \<Rightarrow> nat option" where
  "index_of_id point_id [] = None"
| "index_of_id point_id (point # rest) =
     (if pt_id point = point_id then Some 0
      else map_option Suc (index_of_id point_id rest))"

text \<open>\<^verbatim>\<open>PolygonData2D.remove_point\<close>: the returned flag and the polygon after the call.\<close>

definition remove_point :: "string \<Rightarrow> PolygonData2D \<Rightarrow> bool \<times> PolygonData2D" where
  "remove_point point_id g =
     (case index_of_id point_id (pg_points g) of
        None \<Rightarrow> (False, g)
      | Some i \<Rightarrow>
          (if \<not> pt_deletable (pg_points g ! i) then (False, g)
           else
             (let ps = list_del i (pg_points g) in
                if length ps < 3 then
                  (let ps' = (if length ps > 0 \<and> endswith (pt_id (last ps)) ''_close''
                              then butlast ps else ps)
                   in (True, g\<lparr>pg_points := ps', pg_closed := False, pg_update := True\<rparr>))
                else
                  (True, (ensure_closed (g\<lparr>pg_points := ps\<rparr>))\<lparr>pg_update := True\<rparr>))))"

text \<open>\<^verbatim>\<open>PolygonData2D.get_point_by_id\<close>.\<close>

definition get_point_by_id :: "string \<Rightarrow> PolygonData2D \<Rightarrow> PointData2D option" where
  "get_point_by_id point_id g = find (\<lambda>point. pt_id point = point_id) (pg_points g)"

text \<open>A sequence of \<^verbatim>\<open>add_point\<close>/\<^verbatim>\<open>remove_point\<close> calls on one polygon object; the
  flag that \<^verbatim>\<open>remove_point\<close> returns is dropped.\<close>

datatype polygon_op = AddPoint PointData2D | RemovePoint string

fun apply_polygon_op :: "PolygonData2D \<Rightarrow> polygon_op \<Rightarrow> PolygonData2D" where
  "apply_polygon_op g (AddPoint point) = add_point point g"
| "apply_polygon_op g (RemovePoint point_id) = snd (remove_point point_id g)"

definition run_polygon_ops :: "polygon_op list \<Rightarrow> PolygonData2D \<Rightarrow> PolygonData2D" where
  "run_polygon_ops ops g = foldl apply_polygon_op g ops"

text \<open>A call of \<^verbatim>\<open>remove_point\<close> that leaves the two ends of a ring alone: it finds no
  point with the id, or the point is not deletable (both return \<open>False\<close>), or the polygon
  is left with fewer than three points, or the point is neither the first nor the last.
  A run is a sequence of calls all of whose removals are of that kind.\<close>

definition spares_ends :: "string \<Rightarrow> PolygonData2D \<Rightarrow> bool" where
  "spares_ends point_id g =
     (case index_of_id point_id (pg_points g) of
        None \<Rightarrow> True
      | Some i \<Rightarrow> \<not> pt_deletable (pg_points g ! i)
                 \<or> length (pg_points g) \<le> 3
                 \<or> (0 < i \<and> Suc i < length (pg_points g)))"

fun run_spares_ends :: "polygon_op list \<Rightarrow> PolygonData2D \<Rightarrow> bool" where
  "run_spares_ends [] g = True"
| "run_spares_ends (AddPoint point # rest) g = run_spares_ends rest (add_point point g)"
| "run_spares_ends (RemovePoint point_id # rest) g =
     (spares_ends point_id g \<and> run_spares_ends rest (snd (remove_point point_id g)))"

text \<open>The points a run hands to \<^verbatim>\<open>add_point\<close>, in order.\<close>

fun added_points :: "polygon_op list \<Rightarrow> PointData2D list" where
  "added_points [] = []"
| "added_points (AddPoint point # rest) = point # added_points rest"
| "added_points (RemovePoint point_id # rest) = added_points rest"

text \<open>A polygon that is closed exactly from three points on and whose ring, when
  closed, ends at the coordinates of its first point: in the closing point synthesised
  from the first point, or in one of the points \<open>A\<close>.\<close>

definition ends_meet :: "PointData2D set \<Rightarrow> PolygonData2D \<Rightarrow> bool" where
  "ends_meet A g \<longleftrightarrow>
     (pg_closed g \<longleftrightarrow> 3 \<le> length (pg_points g))
     \<and> (pg_closed g \<longrightarrow>
          pt_x (hd (pg_points g)) = pt_x (last (pg_points g))
        \<and> pt_y (hd (pg_points g)) = pt_y (last (pg_points g))
        \<and> (last (pg_points g) = closing_point (hd (pg_points g))
             \<or> last (pg_points g) \<in> A))"

subsection \<open>Polyline\<close>

text \<open>\<^verbatim>\<open>PolylineData2D.__init__\<close>, \<^verbatim>\<open>add_point\<close> and \<^verbatim>\<open>remove_point\<close>.\<close>

definition PolylineData2D_init ::
  "string \<Rightarrow> PointData2D list \<Rightarrow> string \<Rightarrow> bool \<Rightarrow> PolylineData2D" where
  "PolylineData2D_init i points color update =
     \<lparr>pl_id = i, pl_points = points, pl_color = color, pl_update = update\<rparr>"

definition polyline_add_point :: "PointData2D \<Rightarrow> PolylineData2D \<Rightarrow> PolylineData2D" where
  "polyline_add_point point l = l\<lparr>pl_points := pl_points l @ [point], pl_update := True\<rparr>"

definition polyline_remove_point :: "string \<Rightarrow> PolylineData2D \<Rightarrow> bool \<times> PolylineData2D" where
  "polyline_remove_point point_id l =
     (case index_of_id point_id (pl_points l) of
        None \<Rightarrow> (False, l)
      | Some i \<Rightarrow> (True, l\<lparr>pl_points := list_del i (pl_points l), pl_update := True\<rparr>))"

section \<open>Plot store\<close>

text \<open>
  \<^verbatim>\<open>Canvas2DPlotData\<close>. The dict \<^verbatim>\<open>_plots\<close> keeps insertion order, which the scans of
  the runner widget depend on, so it is an association list: its
  keys are distinct in every store built by the operations below. The two stacks are
  lists with the top at the end, as \<^verbatim>\<open>append\<close>/\<^verbatim>\<open>pop()\<close> use them. The
  \<^verbatim>\<open>data_changed\<close> signal carries no data and is left out.
\<close>

type_synonym plot_dict = "(string \<times> plot) list"

record Canvas2DPlotData =
  plots :: plot_dict
  undo_stack :: "plot_dict list"
  redo_stack :: "plot_dict list"

definition Canvas2DPlotData_init :: Canvas2DPlotData where
  "Canvas2DPlotData_init = \<lparr>plots = [], undo_stack = [], redo_stack = []\<rparr>"

fun plot_id :: "plot \<Rightarrow> string" where
  "plot_id (Point p) = pt_id p"
| "plot_id (Polyline l) = pl_id l"
| "plot_id (Polygon g) = pg_id g"

fun plot_update :: "plot \<Rightarrow> bool" where
  "plot_update (Point p) = pt_update p"
| "plot_update (Polyline l) = pl_update l"
| "plot_update (Polygon g) = pg_update g"

text \<open>The setter \<^verbatim>\<open>plot.update = value\<close>.\<close>

fun set_update :: "bool \<Rightarrow> plot \<Rightarrow> plot" where
  "set_update flag (Point p) = Point (p\<lparr>pt_update := flag\<rparr>)"
| "set_update flag (Polyline l) = Polyline (l\<lparr>pl_update := flag\<rparr>)"
| "set_update flag (Polygon g) = Polygon (g\<lparr>pg_update := flag\<rparr>)"

text \<open>The copy that \<^verbatim>\<open>_save_state_for_undo\<close>, \<^verbatim>\<open>undo\<close> and \<^verbatim>\<open>redo\<close> each write out:
  every plot is rebuilt through its constructor from copied points, with
  \<^verbatim>\<open>update=False\<close>. For a polygon that is \<^verbatim>\<open>PolygonData2D.__init__\<close>, which runs
  \<^verbatim>\<open>_ensure_closed\<close> again.\<close>

definition copy_point :: "PointData2D \<Rightarrow> PointData2D" where
  "copy_point p =
     PointData2D_init (pt_id p) (pt_x p) (pt_y p) (pt_color p) (pt_deletable p) False"

fun copy_plot :: "plot \<Rightarrow> plot" where
  "copy_plot (Point p) = Point (copy_point p)"
| "copy_plot (Polyline l) =
     Polyline (PolylineData2D_init (pl_id l) (map copy_point (pl_points l)) (pl_color l) False)"
| "copy_plot (Polygon g) =
     Polygon (PolygonData2D_init (pg_id g) (map copy_point (pg_points g)) (pg_color g) False)"

definition copy_state :: "plot_dict \<Rightarrow> plot_dict" where
  "copy_state d = map (apsnd copy_plot) d"

text \<open>\<^verbatim>\<open>_save_state_for_undo\<close> (and the public \<^verbatim>\<open>save_state_for_undo\<close>, which only
  calls it): \<^verbatim>\<open>pop(0)\<close> drops the oldest entry.\<close>

definition save_state_for_undo :: "Canvas2DPlotData \<Rightarrow> Canvas2DPlotData" where
  "save_state_for_undo s =
     (let st = undo_stack s @ [copy_state (plots s)];
          st' = (if length st > 100 then tl st else st)
      in s\<lparr>undo_stack := st', redo_stack := []\<rparr>)"

definition add_plot :: "plot \<Rightarrow> Canvas2DPlotData \<Rightarrow> Canvas2DPlotData" where
  "add_plot plot s =
     (let s1 = save_state_for_undo s
      in s1\<lparr>plots := AList.update (plot_id plot) (set_update True plot) (plots s1)\<rparr>)"

definition remove_plot :: "string \<Rightarrow> Canvas2DPlotData \<Rightarrow> bool \<times> Canvas2DPlotData" where
  "remove_plot i s =
     (if i \<in> set (map fst (plots s)) then
        (let s1 = save_state_for_undo s
         in (True, s1\<lparr>plots := AList.delete i (plots s1)\<rparr>))
      else (False, s))"

definition get_plot :: "string \<Rightarrow> Canvas2DPlotData \<Rightarrow> plot option" where
  "get_plot i s = map_of (plots s) i"

definition get_all_plots :: "Canvas2DPlotData \<Rightarrow> plot list" where
  "get_all_plots s = map snd (plots s)"

definition get_plots_to_update :: "Canvas2DPlotData \<Rightarrow> plot list" where
  "get_plots_to_update s = filter plot_update (map snd (plots s))"

definition mark_all_updated :: "Canvas2DPlotData \<Rightarrow> Canvas2DPlotData" where
  "mark_all_updated s = s\<lparr>plots := map (apsnd (set_update False)) (plots s)\<rparr>"

definition undo :: "Canvas2DPlotData \<Rightarrow> bool \<times> Canvas2DPlotData" where
  "undo s =
     (if undo_stack s = [] then (False, s)
      else
        (let current_state = copy_state (plots s);
             previous_state = last (undo_stack s)
         in (True, \<lparr>plots = map (apsnd (set_update True)) previous_state,
                    undo_stack = butlast (undo_stack s),
                    redo_stack = redo_stack s @ [current_state]\<rparr>)))"

definition redo :: "Canvas2DPlotData \<Rightarrow> bool \<times> Canvas2DPlotData" where
  "redo s =
     (if redo_stack s = [] then (False, s)
      else
        (let current_state = copy_state (plots s);
             next_state = last (redo_stack s)
         in (True, \<lparr>plots = map (apsnd (set_update True)) next_state,
                    undo_stack = undo_stack s @ [current_state],
                    redo_stack = butlast (redo_stack s)\<rparr>)))"

definition clear :: "Canvas2DPlotData \<Rightarrow> Canvas2DPlotData" where
  "clear s = (save_state_for_undo s)\<lparr>plots := []\<rparr>"

text \<open>Sequences of store calls. \<open>op_mutates\<close> says that a call takes its undo
  snapshot: every call does, except \<^verbatim>\<open>remove_plot\<close> of an id that is not in the store.\<close>

datatype store_op = AddPlot plot | RemovePlot string | Clear | SaveStateForUndo

fun apply_store_op :: "Canvas2DPlotData \<Rightarrow> store_op \<Rightarrow> Canvas2DPlotData" where
  "apply_store_op s (AddPlot plot) = add_plot plot s"
| "apply_store_op s (RemovePlot i) = snd (remove_plot i s)"
| "apply_store_op s Clear = clear s"
| "apply_store_op s SaveStateForUndo = save_state_for_undo s"

fun op_mutates :: "Canvas2DPlotData \<Rightarrow> store_op \<Rightarrow> bool" where
  "op_mutates s (RemovePlot i) = fst (remove_plot i s)"
| "op_mutates s _ = True"

fun run_store_ops :: "store_op list \<Rightarrow> Canvas2DPlotData \<Rightarrow> Canvas2DPlotData" where
  "run_store_ops [] s = s"
| "run_store_ops (x # xs) s = run_store_ops xs (apply_store_op s x)"

fun ops_mutate :: "store_op list \<Rightarrow> Canvas2DPlotData \<Rightarrow> bool" where
  "ops_mutate [] s = True"
| "ops_mutate (x # xs) s = (op_mutates s x \<and> ops_mutate xs (apply_store_op s x))"

text \<open>The snapshots a run takes, oldest first, with no bound on their number.\<close>

fun snapshots :: "store_op list \<Rightarrow> Canvas2DPlotData \<Rightarrow> plot_dict list" where
  "snapshots [] s = []"
| "snapshots (x # xs) s = copy_state (plots s) # snapshots xs (apply_store_op s x)"

text \<open>\<open>n\<close> calls of \<^verbatim>\<open>undo\<close> (or \<^verbatim>\<open>redo\<close>) in a row: the flags returned, and the
  store afterwards.\<close>

fun undo_flags :: "nat \<Rightarrow> Canvas2DPlotData \<Rightarrow> bool list" where
  "undo_flags 0 s = []"
| "undo_flags (Suc n) s = fst (undo s) # undo_flags n (snd (undo s))"

fun undo_times :: "nat \<Rightarrow> Canvas2DPlotData \<Rightarrow> Canvas2DPlotData" where
  "undo_times 0 s = s"
| "undo_times (Suc n) s = undo_times n (snd (undo s))"

fun redo_flags :: "nat \<Rightarrow> Canvas2DPlotData \<Rightarrow> bool list" where
  "redo_flags 0 s = []"
| "redo_flags (Suc n) s = fst (redo s) # redo_flags n (snd (redo s))"

fun redo_times :: "nat \<Rightarrow> Canvas2DPlotData \<Rightarrow> Canvas2DPlotData" where
  "redo_times 0 s = s"
| "redo_times (Suc n) s = redo_times n (snd (redo s))"

text \<open>The contents of a plot without the render flags: \<^verbatim>\<open>_update\<close> of the plot and of
  its points set to \<open>False\<close>, everything else kept.\<close>

definition clean_point :: "PointData2D \<Rightarrow> PointData2D" where
  "clean_point p = p\<lparr>pt_update := False\<rparr>"

fun clean_plot :: "plot \<Rightarrow> plot" where
  "clean_plot (Point p) = Point (clean_point p)"
| "clean_plot (Polyline l) =
     Polyline (l\<lparr>pl_points := map clean_point (pl_points l), pl_update := False\<rparr>)"
| "clean_plot (Polygon g) =
     Polygon (g\<lparr>pg_points := map clean_point (pg_points g), pg_update := False\<rparr>)"

definition contents :: "plot_dict \<Rightarrow> plot_dict" where
  "contents d = map (apsnd clean_plot) d"

text \<open>A polygon as its constructor leaves it: closed exactly from three points on,
  and then with equal coordinates at both ends. Rebuilding such a polygon from its
  points gives it back.\<close>

definition well_closed :: "PolygonData2D \<Rightarrow> bool" where
  "well_closed g \<longleftrightarrow>
     (if 3 \<le> length (pg_points g)
      then pg_closed g \<and> pt_x (hd (pg_points g)) = pt_x (last (pg_points g))
                       \<and> pt_y (hd (pg_points g)) = pt_y (last (pg_points g))
      else \<not> pg_closed g)"

fun plot_well_closed :: "plot \<Rightarrow> bool" where
  "plot_well_closed (Polygon g) = well_closed g"
| "plot_well_closed other = True"

definition dict_well_closed :: "plot_dict \<Rightarrow> bool" where
  "dict_well_closed d = list_all (\<lambda>e. plot_well_closed (snd e)) d"

section \<open>Boundary and obstacle extraction\<close>

text \<open>
  \<^verbatim>\<open>GaDPPRunnerQWidget._extract_boundary\<close> and \<^verbatim>\<open>_extract_obstacles\<close>, as functions of
  the canvas store. An \<^verbatim>\<open>[x, y]\<close> list is a pair. \<open>ring_of\<close> is the comprehension with
  the test \<^verbatim>\<open>if l and l[0] == l[-1]: l = l[:-1]\<close> that both write out.
\<close>

definition ring_of :: "PointData2D list \<Rightarrow> (real \<times> real) list" where
  "ring_of points =
     (let l = map (\<lambda>point. (pt_x point, pt_y point)) points
      in if l \<noteq> [] \<and> hd l = last l then butlast l else l)"

fun boundary_scan :: "plot list \<Rightarrow> (real \<times> real) list" where
  "boundary_scan [] = []"
| "boundary_scan (Polygon g # rest) =
     (if length (pg_points g) \<ge> 3 then ring_of (pg_points g) else boundary_scan rest)"
| "boundary_scan (other # rest) = boundary_scan rest"

definition extract_boundary :: "Canvas2DPlotData \<Rightarrow> (real \<times> real) list" where
  "extract_boundary s = boundary_scan (get_all_plots s)"

fun is_polygon :: "plot \<Rightarrow> bool" where
  "is_polygon (Polygon g) = True"
| "is_polygon other = False"

fun obstacle_scan :: "plot list \<Rightarrow> (real \<times> real) list list" where
  "obstacle_scan [] = []"
| "obstacle_scan (Polygon g # rest) =
     (if length (pg_points g) \<ge> 3 then
        (let obstacle_points = ring_of (pg_points g)
         in if obstacle_points \<noteq> [] then obstacle_points # obstacle_scan rest
            else obstacle_scan rest)
      else obstacle_scan rest)"
| "obstacle_scan (other # rest) = obstacle_scan rest"

definition extract_obstacles :: "Canvas2DPlotData \<Rightarrow> (real \<times> real) list list option" where
  "extract_obstacles s =
     (let polygons = filter is_polygon (get_all_plots s);
          obstacles = (if length polygons > 1 then obstacle_scan (tl polygons) else [])
      in if obstacles \<noteq> [] then Some obstacles else None)"

text \<open>For stating what the two extractions return: the coordinate pair of a point,
  and the polygons among a list of plots, in order.\<close>

definition coords :: "PointData2D \<Rightarrow> real \<times> real" where
  "coords point = (pt_x point, pt_y point)"

fun polygons_of :: "plot list \<Rightarrow> PolygonData2D list" where
  "polygons_of [] = []"
| "polygons_of (Polygon g # rest) = g # polygons_of rest"
| "polygons_of (other # rest) = polygons_of rest"

definition big_polygons :: "Canvas2DPlotData \<Rightarrow> PolygonData2D list" where
  "big_polygons s = filter (\<lambda>g. 3 \<le> length (pg_points g)) (polygons_of (get_all_plots s))"

text \<open>The first polygon of the store, if there is one, has at least three points.\<close>

definition first_polygon_big :: "Canvas2DPlotData \<Rightarrow> bool" where
  "first_polygon_big s =
     (case polygons_of (get_all_plots s) of [] \<Rightarrow> True | g # rest \<Rightarrow> 3 \<le> length (pg_points g))"

section \<open>Example data\<close>

text \<open>
  Points as the view model's \<^verbatim>\<open>add_point\<close> builds them for a polygon
  (\<^verbatim>\<open>PointData2D(point_id, x, y, color=polygon.color, deletable=True)\<close>), and polygons
  built from an empty one by calls of \<^verbatim>\<open>add_point\<close> and \<^verbatim>\<open>remove_point\<close>.
\<close>

definition mk_point :: "string \<Rightarrow> real \<Rightarrow> real \<Rightarrow> PointData2D" where
  "mk_point i x y = PointData2D_init i x y ''g'' True True"

definition empty_polygon :: "string \<Rightarrow> PolygonData2D" where
  "empty_polygon i = PolygonData2D_init i [] ''g'' True"

definition pa :: PointData2D where "pa = mk_point ''a'' 0 0"
definition pb :: PointData2D where "pb = mk_point ''b'' 10 0"
definition pc :: PointData2D where "pc = mk_point ''c'' 10 10"
definition pd :: PointData2D where "pd = mk_point ''d'' 0 10"

text \<open>A fourth corner given at the coordinates of \<open>pa\<close>, and a point whose id is the
  one \<^verbatim>\<open>_ensure_closed\<close> will give to the closing point of a ring that starts at \<open>pa\<close>.\<close>

definition pe :: PointData2D where "pe = mk_point ''e'' 0 0"
definition pf :: PointData2D where "pf = mk_point ''a_close'' 5 5"

definition triangle_ops :: "polygon_op list" where
  "triangle_ops = [AddPoint pa, AddPoint pb, AddPoint pc]"

definition triangle :: PolygonData2D where
  "triangle = run_polygon_ops triangle_ops (empty_polygon ''polygon_1'')"

text \<open>The third point repeats the first: the caller closes the ring.\<close>

definition caller_closed_ops :: "polygon_op list" where
  "caller_closed_ops = [AddPoint pa, AddPoint pb, AddPoint pe]"

definition caller_closed :: PolygonData2D where
  "caller_closed = run_polygon_ops caller_closed_ops (empty_polygon ''polygon_1'')"

text \<open>The triangle after its first corner is removed.\<close>

definition corner_removed_ops :: "polygon_op list" where
  "corner_removed_ops = [AddPoint pa, AddPoint pb, AddPoint pc, RemovePoint ''a'']"

definition corner_removed :: PolygonData2D where
  "corner_removed = run_polygon_ops corner_removed_ops (empty_polygon ''polygon_1'')"

text \<open>A square with the second corner removed again.\<close>

definition inner_removed_ops :: "polygon_op list" where
  "inner_removed_ops =
     [AddPoint pa, AddPoint pb, AddPoint pc, AddPoint pd, RemovePoint ''b'']"

text \<open>A ring whose second point carries the id of the closing point to come.\<close>

definition clash_ops :: "polygon_op list" where
  "clash_ops = [AddPoint pa, AddPoint pf, AddPoint pc]"

definition clash :: PolygonData2D where
  "clash = run_polygon_ops clash_ops (empty_polygon ''polygon_1'')"

text \<open>A polygon still at two points, and stores built by \<^verbatim>\<open>add_plot\<close>.\<close>

definition segment :: PolygonData2D where
  "segment = run_polygon_ops [AddPoint pc, AddPoint pd] (empty_polygon ''polygon_0'')"

definition corner_store_ops :: "store_op list" where
  "corner_store_ops = [AddPlot (Polygon corner_removed), AddPlot (Point pd)]"

definition corner_store :: Canvas2DPlotData where
  "corner_store = run_store_ops corner_store_ops Canvas2DPlotData_init"

definition triangle_store_ops :: "store_op list" where
  "triangle_store_ops = [AddPlot (Polygon triangle), AddPlot (Point pd), RemovePlot ''d'']"

text \<open>A store with one call undone, so that its redo stack is not empty.\<close>

definition undone_store :: Canvas2DPlotData where
  "undone_store = snd (undo (run_store_ops triangle_store_ops Canvas2DPlotData_init))"

definition segment_first_store :: Canvas2DPlotData where
  "segment_first_store =
     run_store_ops [AddPlot (Polygon segment), AddPlot (Polygon triangle)] Canvas2DPlotData_init"

definition caller_closed_store :: Canvas2DPlotData where
  "caller_closed_store = run_store_ops [AddPlot (Polygon caller_closed)] Canvas2DPlotData_init"

definition second_triangle :: PolygonData2D where
  "second_triangle =
     run_polygon_ops [AddPoint pb, AddPoint pc, AddPoint pd] (empty_polygon ''polygon_2'')"

definition two_triangle_store :: Canvas2DPlotData where
  "two_triangle_store =
     run_store_ops
       [AddPlot (Polygon triangle), AddPlot (Point pd), AddPlot (Polygon second_triangle)]
       Canvas2DPlotData_init"

text \<open>The ids of the points of a plot, in order.\<close>

fun point_ids :: "plot \<Rightarrow> string list" where
  "point_ids (Point p) = [pt_id p]"
| "point_ids (Polyline l) = map pt_id (pl_points l)"
| "point_ids (Polygon g) = map pt_id (pg_points g)"

section \<open>Facts about lists and identifiers\<close>

lemma drop_last_point:
  assumes "xs \<noteq> []"
  shows "drop (length xs - 1) xs = [last xs]"
proof -
  have "drop (length (butlast xs)) (butlast xs @ [last xs]) = [last xs]" by simp
  then show ?thesis using assms by simp
qed

lemma list_insert_before_last:
  assumes "xs \<noteq> []"
  shows "list_insert (length xs - 1) x xs = butlast xs @ [x, last xs]"
  using drop_last_point[OF assms] by (simp add: list_insert_def butlast_conv_take)

text \<open>\<open>endswith\<close> is the suffix relation of the list library.\<close>

lemma endswith_suffix: "endswith s suf \<longleftrightarrow> suffix suf s"
proof
  assume "endswith s suf"
  then have "s = take (length s - length suf) s @ suf"
    unfolding endswith_def by (metis append_take_drop_id)
  then show "suffix suf s" unfolding suffix_def by blast
next
  assume "suffix suf s"
  then obtain zs where "s = zs @ suf" unfolding suffix_def by blast
  then show "endswith s suf" unfolding endswith_def by simp
qed

text \<open>\<open>index_of_id\<close> finds the first point with the id, the one \<^verbatim>\<open>get_point_by_id\<close>
  returns.\<close>

lemma index_of_id_Some:
  "index_of_id i ps = Some n \<Longrightarrow>
     n < length ps \<and> pt_id (ps ! n) = i \<and> (\<forall>m < n. pt_id (ps ! m) \<noteq> i)
     \<and> find (\<lambda>q. pt_id q = i) ps = Some (ps ! n)"
proof (induction ps arbitrary: n)
  case Nil
  then show ?case by simp
next
  case (Cons a ps)
  show ?case
  proof (cases "pt_id a = i")
    case True
    with Cons.prems show ?thesis by simp
  next
    case False
    with Cons.prems obtain k where k: "index_of_id i ps = Some k" "n = Suc k" by auto
    from Cons.IH[OF k(1)] False k(2) show ?thesis by (auto simp: less_Suc_eq_0_disj)
  qed
qed

lemma index_of_id_None: "index_of_id i ps = None \<longleftrightarrow> i \<notin> pt_id ` set ps"
  by (induction ps) auto

lemma find_index_of_id:
  "find (\<lambda>q. pt_id q = i) ps = Some p \<Longrightarrow> \<exists>n. index_of_id i ps = Some n \<and> ps ! n = p"
  by (induction ps) (auto split: if_splits)

lemma distinct_ids_find:
  "distinct (map pt_id ps) \<Longrightarrow> p \<in> set ps \<Longrightarrow> find (\<lambda>q. pt_id q = pt_id p) ps = Some p"
  by (induction ps) (auto simp: image_iff)

section \<open>The example polygons, evaluated\<close>

lemmas example_defs = mk_point_def empty_polygon_def pa_def pb_def pc_def pd_def pe_def pf_def
  triangle_ops_def triangle_def caller_closed_ops_def caller_closed_def corner_removed_ops_def
  corner_removed_def clash_ops_def clash_def segment_def

lemmas polygon_defs = run_polygon_ops_def add_point_def remove_point_def ensure_closed_def
  PolygonData2D_init_def PointData2D_init_def closing_point_def list_insert_def list_del_def
  endswith_def Let_def

lemma triangle_eq:
  "triangle = \<lparr>pg_id = ''polygon_1'', pg_points = [pa, pb, pc, closing_point pa],
                pg_color = ''g'', pg_closed = True, pg_update = True\<rparr>"
  by (simp add: example_defs polygon_defs)

lemma caller_closed_eq:
  "caller_closed = \<lparr>pg_id = ''polygon_1'', pg_points = [pa, pb, pe],
                     pg_color = ''g'', pg_closed = True, pg_update = True\<rparr>"
  by (simp add: example_defs polygon_defs)

lemma corner_removed_eq:
  "corner_removed = \<lparr>pg_id = ''polygon_1'', pg_points = [pb, pc, closing_point pa],
                      pg_color = ''g'', pg_closed = True, pg_update = True\<rparr>"
  by (simp add: example_defs polygon_defs)

lemma clash_eq:
  "clash = \<lparr>pg_id = ''polygon_1'', pg_points = [pa, pf, pc, closing_point pa],
             pg_color = ''g'', pg_closed = True, pg_update = True\<rparr>"
  by (simp add: example_defs polygon_defs)

lemma segment_eq:
  "segment = \<lparr>pg_id = ''polygon_0'', pg_points = [pc, pd],
               pg_color = ''g'', pg_closed = False, pg_update = True\<rparr>"
  by (simp add: example_defs polygon_defs)

section \<open>Polygon: insertion, construction, removal\<close>

lemma add_point_closed:
  assumes "pg_closed g" and "3 \<le> length (pg_points g)"
  shows "add_point p g =
           g\<lparr>pg_points := butlast (pg_points g) @ [p, last (pg_points g)], pg_update := True\<rparr>"
proof -
  from assms(2) have ne: "pg_points g \<noteq> []" by auto
  show ?thesis using assms list_insert_before_last[OF ne] by (simp add: add_point_def)
qed

text \<open>
  C7. On a closed polygon with at least three points, \<^verbatim>\<open>add_point\<close> inserts the new
  point at index \<open>len - 1\<close>: the points before the old last one are unchanged, the new
  point follows them, the old last point is still last, and the polygon is marked for
  update.
\<close>

theorem add_point_inserts_before_last:
  assumes "pg_closed g" and "3 \<le> length (pg_points g)"
  shows "pg_points (add_point p g) = list_insert (length (pg_points g) - 1) p (pg_points g)
       \<and> pg_points (add_point p g) ! (length (pg_points g) - 1) = p
       \<and> butlast (pg_points (add_point p g)) = butlast (pg_points g) @ [p]
       \<and> last (pg_points (add_point p g)) = last (pg_points g)
       \<and> pg_update (add_point p g)"
proof -
  from assms(2) have ne: "pg_points g \<noteq> []" by auto
  have eq: "pg_points (add_point p g) = butlast (pg_points g) @ [p, last (pg_points g)]"
    using assms by (simp add: add_point_closed)
  have "pg_points (add_point p g) ! (length (pg_points g) - 1) = p"
    unfolding eq by (simp add: nth_append)
  moreover have "butlast (pg_points (add_point p g)) = butlast (pg_points g) @ [p]"
    unfolding eq by (simp add: butlast_append)
  moreover have "pg_update (add_point p g)"
    using assms by (simp add: add_point_closed)
  ultimately show ?thesis using eq list_insert_before_last[OF ne] by simp
qed

theorem add_point_inserts_before_last_witness:
  "pg_closed triangle \<and> 3 \<le> length (pg_points triangle)
   \<and> pg_points (add_point pd triangle) ! 3 = pd
   \<and> last (pg_points (add_point pd triangle)) = closing_point pa
   \<and> pg_update (add_point pd triangle)"
proof -
  have h1: "pg_closed triangle" by (simp add: triangle_eq)
  have h2: "3 \<le> length (pg_points triangle)" by (simp add: triangle_eq)
  have l: "length (pg_points triangle) - 1 = 3" "last (pg_points triangle) = closing_point pa"
    by (simp_all add: triangle_eq)
  from add_point_inserts_before_last[OF h1 h2, of pd] show ?thesis
    unfolding l using h1 h2 by blast
qed

text \<open>
  C9. Constructing a polygon from at least three points closes it at once. If the
  first and the last point differ in x or in y, exactly one point is appended: it has
  the first point's coordinates, is not deletable, and its id is the first point's id
  followed by \<open>_close\<close>. If they have the same coordinates, nothing is appended.
\<close>

theorem init_auto_closes:
  assumes "3 \<le> length ps"
  shows "(pt_x (hd ps) \<noteq> pt_x (last ps) \<or> pt_y (hd ps) \<noteq> pt_y (last ps) \<longrightarrow>
            pg_closed (PolygonData2D_init i ps c u)
          \<and> pg_points (PolygonData2D_init i ps c u) = ps @ [closing_point (hd ps)]
          \<and> pt_x (closing_point (hd ps)) = pt_x (hd ps)
          \<and> pt_y (closing_point (hd ps)) = pt_y (hd ps)
          \<and> \<not> pt_deletable (closing_point (hd ps))
          \<and> pt_id (closing_point (hd ps)) = pt_id (hd ps) @ ''_close'')
       \<and> (pt_x (hd ps) = pt_x (last ps) \<and> pt_y (hd ps) = pt_y (last ps) \<longrightarrow>
            pg_closed (PolygonData2D_init i ps c u)
          \<and> pg_points (PolygonData2D_init i ps c u) = ps)"
  using assms
  by (simp add: PolygonData2D_init_def ensure_closed_def Let_def closing_point_def
      PointData2D_init_def)

theorem init_auto_closes_witness:
  "pg_closed (PolygonData2D_init ''polygon_1'' [pa, pb, pc] ''g'' True)
   \<and> pg_points (PolygonData2D_init ''polygon_1'' [pa, pb, pc] ''g'' True)
       = [pa, pb, pc, closing_point pa]
   \<and> pt_id (closing_point pa) = ''a_close''
   \<and> pg_closed (PolygonData2D_init ''polygon_1'' [pa, pb, pe] ''g'' True)
   \<and> pg_points (PolygonData2D_init ''polygon_1'' [pa, pb, pe] ''g'' True) = [pa, pb, pe]"
proof -
  have h1: "3 \<le> length [pa, pb, pc]" and h2: "3 \<le> length [pa, pb, pe]" by simp_all
  have d: "pt_x (hd [pa, pb, pc]) \<noteq> pt_x (last [pa, pb, pc])"
    by (simp add: example_defs PointData2D_init_def)
  have e: "pt_x (hd [pa, pb, pe]) = pt_x (last [pa, pb, pe])
         \<and> pt_y (hd [pa, pb, pe]) = pt_y (last [pa, pb, pe])"
    by (simp add: example_defs PointData2D_init_def)
  from init_auto_closes[OF h1, of "''polygon_1''" "''g''" True]
       init_auto_closes[OF h2, of "''polygon_1''" "''g''" True] d e
  show ?thesis by (simp add: pa_def mk_point_def PointData2D_init_def)
qed

text \<open>
  C10. When a successful \<^verbatim>\<open>remove_point\<close> leaves fewer than three points (the polygon
  had at most three), the polygon is no longer closed, and the last of the remaining
  points is dropped as well exactly when there is one and its id ends with \<open>_close\<close>:
  neither its coordinates nor its deletable flag are looked at.
\<close>

theorem remove_point_unclose:
  assumes "fst (remove_point point_id g)" and "length (pg_points g) \<le> 3"
  shows "\<exists>i. index_of_id point_id (pg_points g) = Some i
           \<and> \<not> pg_closed (snd (remove_point point_id g))
           \<and> pg_points (snd (remove_point point_id g)) =
               (if list_del i (pg_points g) \<noteq> []
                   \<and> suffix ''_close'' (pt_id (last (list_del i (pg_points g))))
                then butlast (list_del i (pg_points g))
                else list_del i (pg_points g))"
proof -
  from assms(1) obtain i where i: "index_of_id point_id (pg_points g) = Some i"
    and d: "pt_deletable (pg_points g ! i)"
    by (auto simp: remove_point_def split: option.splits if_splits)
  from index_of_id_Some[OF i] have "i < length (pg_points g)" by simp
  with assms(2) have len: "length (list_del i (pg_points g)) < 3"
    by (simp add: list_del_def)
  show ?thesis using i d len
    by (simp add: remove_point_def Let_def endswith_suffix)
qed

theorem remove_point_unclose_witness:
  "fst (remove_point ''b'' corner_removed) \<and> length (pg_points corner_removed) \<le> 3
   \<and> \<not> pg_closed (snd (remove_point ''b'' corner_removed))
   \<and> pg_points (snd (remove_point ''b'' corner_removed)) = [pc]
   \<and> pg_points (snd (remove_point ''b'' caller_closed)) = [pa, pe]"
proof -
  have h1: "fst (remove_point ''b'' corner_removed)"
    by (simp add: corner_removed_eq example_defs polygon_defs)
  have h2: "length (pg_points corner_removed) \<le> 3" by (simp add: corner_removed_eq)
  have h3: "fst (remove_point ''b'' caller_closed)"
    by (simp add: caller_closed_eq example_defs polygon_defs)
  have h4: "length (pg_points caller_closed) \<le> 3" by (simp add: caller_closed_eq)
  have i: "index_of_id ''b'' (pg_points corner_removed) = Some 0"
      "index_of_id ''b'' (pg_points caller_closed) = Some 1"
    by (simp_all add: corner_removed_eq caller_closed_eq example_defs PointData2D_init_def)
  have s: "suffix ''_close'' (pt_id (closing_point pa))" "\<not> suffix ''_close'' (pt_id pe)"
    by (simp_all add: endswith_suffix[symmetric] endswith_def example_defs closing_point_def
        PointData2D_init_def)
  from remove_point_unclose[OF h1 h2] remove_point_unclose[OF h3 h4] i s h1 h2
  show ?thesis by (simp add: corner_removed_eq caller_closed_eq list_del_def)
qed


section \<open>Polygon: protected points\<close>

text \<open>
  C5, as the code has it. \<^verbatim>\<open>remove_point\<close> looks at the first point that carries the
  id: if that point is not deletable the call returns \<open>False\<close> and the polygon (points,
  closed flag, update flag) is unchanged. With pairwise distinct point ids this covers
  every point that is not deletable, the closing point among them.
\<close>

theorem remove_point_protected:
  "(get_point_by_id point_id g = Some p \<and> \<not> pt_deletable p
      \<longrightarrow> remove_point point_id g = (False, g))
   \<and> (distinct (map pt_id (pg_points g)) \<and> q \<in> set (pg_points g) \<and> \<not> pt_deletable q
      \<longrightarrow> remove_point (pt_id q) g = (False, g))"
proof -
  have first: "remove_point i g = (False, g)"
    if "find (\<lambda>r. pt_id r = i) (pg_points g) = Some r" and "\<not> pt_deletable r" for i r
  proof -
    from that(1) obtain n where "index_of_id i (pg_points g) = Some n" "pg_points g ! n = r"
      using find_index_of_id by blast
    with that(2) show ?thesis by (simp add: remove_point_def)
  qed
  show ?thesis
    using first distinct_ids_find unfolding get_point_by_id_def by blast
qed

theorem remove_point_protected_witness:
  "get_point_by_id ''a_close'' triangle = Some (closing_point pa)
   \<and> \<not> pt_deletable (closing_point pa)
   \<and> distinct (map pt_id (pg_points triangle))
   \<and> closing_point pa \<in> set (pg_points triangle)
   \<and> remove_point ''a_close'' triangle = (False, triangle)"
proof -
  have h1: "get_point_by_id ''a_close'' triangle = Some (closing_point pa)"
    by (simp add: get_point_by_id_def triangle_eq example_defs closing_point_def
        PointData2D_init_def)
  have h2: "\<not> pt_deletable (closing_point pa)"
    by (simp add: closing_point_def PointData2D_init_def)
  have h3: "distinct (map pt_id (pg_points triangle))"
    by (simp add: triangle_eq example_defs closing_point_def PointData2D_init_def)
  have h4: "closing_point pa \<in> set (pg_points triangle)" by (simp add: triangle_eq)
  from remove_point_protected[of "''a_close''" triangle "closing_point pa" "closing_point pa"]
    h1 h2 h3 h4
  show ?thesis by blast
qed

text \<open>
  Without the restriction to the first point with the id, the property fails where an
  earlier, deletable point carries the closing point's id:
  three calls of \<^verbatim>\<open>add_point\<close> with the distinct ids \<open>a\<close>, \<open>a_close\<close>, \<open>c\<close> build such a
  polygon, and \<^verbatim>\<open>remove_point\<close> with the closing point's id then returns \<open>True\<close> and
  removes the caller's point.
\<close>

theorem remove_point_protected_counterexample:
  "closing_point pa \<in> set (pg_points clash)
   \<and> \<not> pt_deletable (closing_point pa)
   \<and> fst (remove_point (pt_id (closing_point pa)) clash)
   \<and> pg_points (snd (remove_point (pt_id (closing_point pa)) clash)) = [pa, pc, closing_point pa]
   \<and> pg_points clash = [pa, pf, pc, closing_point pa]"
  by (simp add: clash_eq example_defs polygon_defs)

section \<open>Polygon: the closure invariant\<close>

lemma add_point_keeps_closed_iff:
  assumes "pg_closed g \<longleftrightarrow> 3 \<le> length (pg_points g)"
  shows "pg_closed (add_point p g) \<longleftrightarrow> 3 \<le> length (pg_points (add_point p g))"
  using assms by (auto simp: add_point_def ensure_closed_def list_insert_def Let_def)

lemma remove_point_keeps_closed_iff:
  assumes "pg_closed g \<longleftrightarrow> 3 \<le> length (pg_points g)"
  shows "pg_closed (snd (remove_point i g))
           \<longleftrightarrow> 3 \<le> length (pg_points (snd (remove_point i g)))"
proof (cases "fst (remove_point i g)")
  case False
  then have "snd (remove_point i g) = g"
    by (auto simp: remove_point_def Let_def split: option.splits if_splits)
  with assms show ?thesis by simp
next
  case True
  then obtain n where n: "index_of_id i (pg_points g) = Some n"
    and d: "pt_deletable (pg_points g ! n)"
    by (auto simp: remove_point_def split: option.splits if_splits)
  show ?thesis
  proof (cases "length (list_del n (pg_points g)) < 3")
    case True
    then have "\<not> 3 \<le> length (list_del n (pg_points g))"
      and "\<not> 3 \<le> length (butlast (list_del n (pg_points g)))" by simp_all
    with n d True show ?thesis by (simp add: remove_point_def Let_def del: length_butlast)
  next
    case False
    with n d show ?thesis
      by (simp add: remove_point_def Let_def ensure_closed_def)
  qed
qed

lemma run_keeps_closed_iff:
  assumes "pg_closed g \<longleftrightarrow> 3 \<le> length (pg_points g)"
  shows "pg_closed (foldl apply_polygon_op g ops)
           \<longleftrightarrow> 3 \<le> length (pg_points (foldl apply_polygon_op g ops))"
  using assms
proof (induction ops arbitrary: g)
  case Nil
  then show ?case by simp
next
  case (Cons x xs)
  have "pg_closed (apply_polygon_op g x) \<longleftrightarrow> 3 \<le> length (pg_points (apply_polygon_op g x))"
    using Cons.prems
    by (cases x) (simp_all add: add_point_keeps_closed_iff remove_point_keeps_closed_iff)
  from Cons.IH[OF this] show ?case by simp
qed

text \<open>Calls of \<^verbatim>\<open>add_point\<close> alone: on a closed ring they keep both ends.\<close>

lemma adds_keep_ends:
  assumes "pg_closed g" and "3 \<le> length (pg_points g)"
  shows "pg_closed (foldl apply_polygon_op g (map AddPoint qs))
       \<and> 3 \<le> length (pg_points (foldl apply_polygon_op g (map AddPoint qs)))
       \<and> hd (pg_points (foldl apply_polygon_op g (map AddPoint qs))) = hd (pg_points g)
       \<and> last (pg_points (foldl apply_polygon_op g (map AddPoint qs))) = last (pg_points g)"
  using assms
proof (induction qs arbitrary: g)
  case Nil
  then show ?case by simp
next
  case (Cons q qs)
  from Cons.prems(2) have "\<exists>a rest. pg_points g = a # rest \<and> rest \<noteq> []"
    by (cases "pg_points g") auto
  then obtain a rest where g: "pg_points g = a # rest" "rest \<noteq> []" by blast
  have step: "pg_closed (add_point q g)" "3 \<le> length (pg_points (add_point q g))"
      "hd (pg_points (add_point q g)) = hd (pg_points g)"
      "last (pg_points (add_point q g)) = last (pg_points g)"
    using Cons.prems g by (simp_all add: add_point_closed)
  from Cons.IH[OF step(1,2)] step(3,4) show ?case by simp
qed

lemma three_adds:
  "foldl apply_polygon_op (PolygonData2D_init i [] c u) (map AddPoint [p0, p1, p2]) =
     (if pt_x p0 \<noteq> pt_x p2 \<or> pt_y p0 \<noteq> pt_y p2
      then \<lparr>pg_id = i, pg_points = [p0, p1, p2, closing_point p0], pg_color = c,
             pg_closed = True, pg_update = True\<rparr>
      else \<lparr>pg_id = i, pg_points = [p0, p1, p2], pg_color = c,
             pg_closed = True, pg_update = True\<rparr>)"
  by (simp add: PolygonData2D_init_def add_point_def ensure_closed_def Let_def)

lemma few_adds:
  assumes "length ps < 3"
  shows "\<not> pg_closed (foldl apply_polygon_op (PolygonData2D_init i [] c u) (map AddPoint ps))"
proof -
  from assms consider "ps = []" | p0 where "ps = [p0]" | p0 p1 where "ps = [p0, p1]"
    by (cases ps; cases "tl ps"; cases "tl (tl ps)") auto
  then show ?thesis
    by cases (simp_all add: PolygonData2D_init_def add_point_def ensure_closed_def Let_def)
qed

lemma adds_ends:
  assumes "3 \<le> length ps"
  shows "hd (pg_points (foldl apply_polygon_op (PolygonData2D_init i [] c u) (map AddPoint ps)))
           = ps ! 0
       \<and> last (pg_points (foldl apply_polygon_op (PolygonData2D_init i [] c u) (map AddPoint ps)))
           = (if pt_x (ps ! 0) \<noteq> pt_x (ps ! 2) \<or> pt_y (ps ! 0) \<noteq> pt_y (ps ! 2)
              then closing_point (ps ! 0) else ps ! 2)"
proof -
  from assms obtain p0 p1 p2 qs where ps: "ps = p0 # p1 # p2 # qs"
    by (cases ps; cases "tl ps"; cases "tl (tl ps)") auto
  let ?g3 = "foldl apply_polygon_op (PolygonData2D_init i [] c u) (map AddPoint [p0, p1, p2])"
  have run: "foldl apply_polygon_op (PolygonData2D_init i [] c u) (map AddPoint ps)
               = foldl apply_polygon_op ?g3 (map AddPoint qs)"
    by (simp add: ps)
  have g3: "pg_closed ?g3" "3 \<le> length (pg_points ?g3)" "hd (pg_points ?g3) = p0"
      "last (pg_points ?g3) = (if pt_x p0 \<noteq> pt_x p2 \<or> pt_y p0 \<noteq> pt_y p2
                                 then closing_point p0 else p2)"
    unfolding three_adds by simp_all
  from adds_keep_ends[OF g3(1,2), of qs] g3(3,4) show ?thesis
    unfolding run by (simp add: ps)
qed

text \<open>Runs whose removals leave the ends of the ring alone keep it closed on itself.\<close>

lemma ends_meet_mono: "ends_meet A g \<Longrightarrow> A \<subseteq> B \<Longrightarrow> ends_meet B g"
  unfolding ends_meet_def by blast

lemma add_point_ends_meet:
  assumes "ends_meet A g"
  shows "ends_meet (insert p A) (add_point p g)"
proof (cases "pg_closed g")
  case True
  with assms have len: "3 \<le> length (pg_points g)" by (simp add: ends_meet_def)
  then have "\<exists>a rest. pg_points g = a # rest \<and> rest \<noteq> []"
    by (cases "pg_points g") auto
  then obtain a rest where g: "pg_points g = a # rest" "rest \<noteq> []" by blast
  have "pg_points (add_point p g) = butlast (pg_points g) @ [p, last (pg_points g)]"
    and "pg_closed (add_point p g)"
    using True len by (simp_all add: add_point_closed)
  with assms True g show ?thesis by (auto simp: ends_meet_def)
next
  case False
  with assms have "length (pg_points g) < 3" by (simp add: ends_meet_def)
  then consider "pg_points g = []" | a where "pg_points g = [a]"
    | a b where "pg_points g = [a, b]"
    by (cases "pg_points g"; cases "tl (pg_points g)"; cases "tl (tl (pg_points g))") auto
  then show ?thesis
    using False
    by cases (simp_all add: ends_meet_def add_point_def ensure_closed_def Let_def
        closing_point_def PointData2D_init_def)
qed

lemma list_del_inner:
  assumes "0 < i" and "Suc i < length xs"
  shows "hd (list_del i xs) = hd xs" and "last (list_del i xs) = last xs"
    and "length (list_del i xs) = length xs - 1"
proof -
  from assms have t: "take i xs \<noteq> []" and d: "drop (Suc i) xs \<noteq> []" by auto
  from t show "hd (list_del i xs) = hd xs"
    using assms(1) by (cases xs; cases i) (simp_all add: list_del_def)
  from d show "last (list_del i xs) = last xs"
    using assms(2) by (simp add: list_del_def last_drop)
  from assms show "length (list_del i xs) = length xs - 1"
    by (simp add: list_del_def)
qed

lemma remove_point_ends_meet:
  assumes "ends_meet A g" and "spares_ends point_id g"
  shows "ends_meet A (snd (remove_point point_id g))"
proof (cases "fst (remove_point point_id g)")
  case False
  then have "snd (remove_point point_id g) = g"
    by (auto simp: remove_point_def Let_def split: option.splits if_splits)
  with assms(1) show ?thesis by simp
next
  case True
  then obtain i where i: "index_of_id point_id (pg_points g) = Some i"
    and d: "pt_deletable (pg_points g ! i)"
    by (auto simp: remove_point_def split: option.splits if_splits)
  from index_of_id_Some[OF i] have ilen: "i < length (pg_points g)" by simp
  show ?thesis
  proof (cases "length (pg_points g) \<le> 3")
    case True
    with ilen have short: "length (list_del i (pg_points g)) < 3" by (simp add: list_del_def)
    then have "\<not> 3 \<le> length (list_del i (pg_points g))"
      and "\<not> 3 \<le> length (butlast (list_del i (pg_points g)))" by simp_all
    with i d short show ?thesis
      by (simp add: remove_point_def Let_def ends_meet_def del: length_butlast)
  next
    case False
    with assms(2) i d have inner: "0 < i" "Suc i < length (pg_points g)"
      by (simp_all add: spares_ends_def)
    from False assms(1) have c: "pg_closed g" by (simp add: ends_meet_def)
    from False list_del_inner(3)[OF inner]
    have long: "\<not> length (list_del i (pg_points g)) < 3"
      and long': "3 \<le> length (list_del i (pg_points g))" by simp_all
    have "snd (remove_point point_id g) = g\<lparr>pg_points := list_del i (pg_points g), pg_update := True\<rparr>"
      using i d long c by (simp add: remove_point_def Let_def ensure_closed_def)
    with assms(1) c long' list_del_inner(1,2)[OF inner] show ?thesis
      by (simp add: ends_meet_def)
  qed
qed

lemma run_ends_meet:
  assumes "ends_meet A g" and "run_spares_ends ops g"
  shows "ends_meet (A \<union> set (added_points ops)) (foldl apply_polygon_op g ops)"
  using assms
proof (induction ops arbitrary: g A)
  case Nil
  then show ?case by simp
next
  case (Cons x xs)
  show ?case
  proof (cases x)
    case (AddPoint p)
    with Cons.prems have r: "run_spares_ends xs (add_point p g)" by simp
    from Cons.IH[OF add_point_ends_meet[OF Cons.prems(1), of p] r] AddPoint
    show ?thesis by simp
  next
    case (RemovePoint i)
    with Cons.prems have s: "spares_ends i g"
      and r: "run_spares_ends xs (snd (remove_point i g))" by simp_all
    from Cons.IH[OF remove_point_ends_meet[OF Cons.prems(1) s] r] RemovePoint
    show ?thesis by simp
  qed
qed

lemma adds_spare_ends: "run_spares_ends (map AddPoint ps) g"
  by (induction ps arbitrary: g) simp_all


text \<open>
  C1, as the code has it. From an empty polygon, after any sequence of \<^verbatim>\<open>add_point\<close>
  and \<^verbatim>\<open>remove_point\<close> calls, closed is true exactly when there are at least three
  points. If every removal of the sequence failed, left fewer than three points or took
  a point that was neither first nor last, a closed polygon has equal coordinates at
  its first and last point, and its last point is the closing point synthesised from
  the first (which is not deletable) or one of the points the caller added. After
  \<^verbatim>\<open>add_point\<close> calls alone the ring starts at the first point added; its last point is
  the synthesised closing point when the third point added differs from the first in
  x or y, and is that third point itself when it does not.
\<close>

theorem polygon_closure_invariant:
  "(pg_closed (run_polygon_ops ops (PolygonData2D_init i [] c u))
      \<longleftrightarrow> 3 \<le> length (pg_points (run_polygon_ops ops (PolygonData2D_init i [] c u))))
   \<and> (run_spares_ends ops (PolygonData2D_init i [] c u)
        \<and> pg_closed (run_polygon_ops ops (PolygonData2D_init i [] c u)) \<longrightarrow>
        pt_x (hd (pg_points (run_polygon_ops ops (PolygonData2D_init i [] c u))))
          = pt_x (last (pg_points (run_polygon_ops ops (PolygonData2D_init i [] c u))))
      \<and> pt_y (hd (pg_points (run_polygon_ops ops (PolygonData2D_init i [] c u))))
          = pt_y (last (pg_points (run_polygon_ops ops (PolygonData2D_init i [] c u))))
      \<and> (last (pg_points (run_polygon_ops ops (PolygonData2D_init i [] c u)))
            = closing_point (hd (pg_points (run_polygon_ops ops (PolygonData2D_init i [] c u))))
          \<and> \<not> pt_deletable
                (last (pg_points (run_polygon_ops ops (PolygonData2D_init i [] c u))))
          \<or> last (pg_points (run_polygon_ops ops (PolygonData2D_init i [] c u)))
               \<in> set (added_points ops)))
   \<and> (pg_closed (run_polygon_ops (map AddPoint ps) (PolygonData2D_init i [] c u)) \<longrightarrow>
        hd (pg_points (run_polygon_ops (map AddPoint ps) (PolygonData2D_init i [] c u)))
          = ps ! 0
      \<and> (pt_x (ps ! 0) \<noteq> pt_x (ps ! 2) \<or> pt_y (ps ! 0) \<noteq> pt_y (ps ! 2) \<longrightarrow>
           last (pg_points (run_polygon_ops (map AddPoint ps) (PolygonData2D_init i [] c u)))
             = closing_point (ps ! 0)
         \<and> \<not> pt_deletable
               (last (pg_points (run_polygon_ops (map AddPoint ps) (PolygonData2D_init i [] c u)))))
      \<and> (pt_x (ps ! 0) = pt_x (ps ! 2) \<and> pt_y (ps ! 0) = pt_y (ps ! 2) \<longrightarrow>
           last (pg_points (run_polygon_ops (map AddPoint ps) (PolygonData2D_init i [] c u)))
             = ps ! 2))"
proof (intro conjI impI)
  have "pg_closed (PolygonData2D_init i [] c u)
          \<longleftrightarrow> 3 \<le> length (pg_points (PolygonData2D_init i [] c u))"
    by (simp add: PolygonData2D_init_def)
  from run_keeps_closed_iff[OF this]
  show "pg_closed (run_polygon_ops ops (PolygonData2D_init i [] c u))
      \<longleftrightarrow> 3 \<le> length (pg_points (run_polygon_ops ops (PolygonData2D_init i [] c u)))"
    unfolding run_polygon_ops_def .
next
  let ?g = "run_polygon_ops ops (PolygonData2D_init i [] c u)"
  assume a: "run_spares_ends ops (PolygonData2D_init i [] c u) \<and> pg_closed ?g"
  have "ends_meet {} (PolygonData2D_init i [] c u)"
    by (simp add: ends_meet_def PolygonData2D_init_def)
  from run_ends_meet[OF this, of ops] a
  have m: "ends_meet (set (added_points ops)) ?g"
    unfolding run_polygon_ops_def by simp
  show "pt_x (hd (pg_points ?g)) = pt_x (last (pg_points ?g))"
    and "pt_y (hd (pg_points ?g)) = pt_y (last (pg_points ?g))"
    using m a by (simp_all add: ends_meet_def)
  have "last (pg_points ?g) = closing_point (hd (pg_points ?g))
          \<or> last (pg_points ?g) \<in> set (added_points ops)"
    using m a by (simp add: ends_meet_def)
  moreover have "\<not> pt_deletable (closing_point (hd (pg_points ?g)))"
    by (simp add: closing_point_def PointData2D_init_def)
  ultimately show "last (pg_points ?g) = closing_point (hd (pg_points ?g))
          \<and> \<not> pt_deletable (last (pg_points ?g))
          \<or> last (pg_points ?g) \<in> set (added_points ops)"
    by auto
next
  let ?g = "run_polygon_ops (map AddPoint ps) (PolygonData2D_init i [] c u)"
  assume "pg_closed ?g"
  then have len: "3 \<le> length ps"
    using few_adds[of ps i c u] unfolding run_polygon_ops_def by (cases "length ps < 3") auto
  note e = adds_ends[OF len, of i c u, folded run_polygon_ops_def]
  show "hd (pg_points ?g) = ps ! 0" using e by simp
  show "last (pg_points ?g) = closing_point (ps ! 0)"
    and "\<not> pt_deletable (last (pg_points ?g))"
    if "pt_x (ps ! 0) \<noteq> pt_x (ps ! 2) \<or> pt_y (ps ! 0) \<noteq> pt_y (ps ! 2)"
    using e that by (simp_all add: closing_point_def PointData2D_init_def)
  show "last (pg_points ?g) = ps ! 2"
    if "pt_x (ps ! 0) = pt_x (ps ! 2) \<and> pt_y (ps ! 0) = pt_y (ps ! 2)"
    using e that by simp
qed

theorem polygon_closure_invariant_witness:
  "run_spares_ends inner_removed_ops (PolygonData2D_init ''polygon_1'' [] ''g'' True)
   \<and> pg_closed (run_polygon_ops inner_removed_ops (PolygonData2D_init ''polygon_1'' [] ''g'' True))
   \<and> 3 \<le> length (pg_points
         (run_polygon_ops inner_removed_ops (PolygonData2D_init ''polygon_1'' [] ''g'' True)))
   \<and> pt_x (hd (pg_points
         (run_polygon_ops inner_removed_ops (PolygonData2D_init ''polygon_1'' [] ''g'' True))))
       = pt_x (last (pg_points
         (run_polygon_ops inner_removed_ops (PolygonData2D_init ''polygon_1'' [] ''g'' True))))
   \<and> pg_closed (run_polygon_ops (map AddPoint [pa, pb, pc])
         (PolygonData2D_init ''polygon_1'' [] ''g'' True))
   \<and> (pt_x ([pa, pb, pc] ! 0) \<noteq> pt_x ([pa, pb, pc] ! 2))
   \<and> last (pg_points (run_polygon_ops (map AddPoint [pa, pb, pc])
         (PolygonData2D_init ''polygon_1'' [] ''g'' True))) = closing_point ([pa, pb, pc] ! 0)
   \<and> \<not> pt_deletable (last (pg_points (run_polygon_ops (map AddPoint [pa, pb, pc])
         (PolygonData2D_init ''polygon_1'' [] ''g'' True))))"
proof -
  have r: "run_polygon_ops inner_removed_ops (PolygonData2D_init ''polygon_1'' [] ''g'' True)
      = \<lparr>pg_id = ''polygon_1'', pg_points = [pa, pc, pd, closing_point pa],
         pg_color = ''g'', pg_closed = True, pg_update = True\<rparr>"
    by (simp add: inner_removed_ops_def example_defs polygon_defs)
  have h0: "run_spares_ends inner_removed_ops (PolygonData2D_init ''polygon_1'' [] ''g'' True)"
    by (simp add: inner_removed_ops_def spares_ends_def example_defs polygon_defs)
  have h1: "pg_closed (run_polygon_ops inner_removed_ops
              (PolygonData2D_init ''polygon_1'' [] ''g'' True))"
    by (simp add: r)
  have h2: "pg_closed (run_polygon_ops (map AddPoint [pa, pb, pc])
              (PolygonData2D_init ''polygon_1'' [] ''g'' True))"
    using triangle_eq by (simp add: triangle_def triangle_ops_def empty_polygon_def)
  have h3: "pt_x ([pa, pb, pc] ! 0) \<noteq> pt_x ([pa, pb, pc] ! 2)"
    by (simp add: example_defs PointData2D_init_def)
  from polygon_closure_invariant[of inner_removed_ops "''polygon_1''" "''g''" True
      "[pa, pb, pc]"] h0 h1 h2 h3
  show ?thesis by blast
qed

text \<open>
  Two ways in which a closed polygon does not end in a synthesised copy of its first
  point. When the third point added repeats the first point's
  coordinates, \<^verbatim>\<open>_ensure_closed\<close> appends nothing, and the last point of the closed
  polygon is the caller's deletable point. When the first corner of a closed triangle
  is removed, \<^verbatim>\<open>_ensure_closed\<close> returns at once because the polygon is still marked
  closed, and the ring then starts at the second corner but still ends at the old
  closing point.
\<close>

theorem polygon_closure_invariant_counterexample:
  "pg_closed (run_polygon_ops caller_closed_ops (empty_polygon ''polygon_1''))
   \<and> pt_deletable (last (pg_points
         (run_polygon_ops caller_closed_ops (empty_polygon ''polygon_1''))))
   \<and> pg_closed (run_polygon_ops corner_removed_ops (empty_polygon ''polygon_1''))
   \<and> pt_x (hd (pg_points (run_polygon_ops corner_removed_ops (empty_polygon ''polygon_1''))))
       \<noteq> pt_x (last (pg_points
             (run_polygon_ops corner_removed_ops (empty_polygon ''polygon_1''))))"
  using caller_closed_eq corner_removed_eq
  unfolding caller_closed_def corner_removed_def
  by (simp add: pa_def pb_def pe_def mk_point_def closing_point_def PointData2D_init_def)


text \<open>The run that removes the first corner is not one that spares the ends.\<close>

lemma corner_removed_ends_not_spared:
  "\<not> run_spares_ends corner_removed_ops (empty_polygon ''polygon_1'')"
  by (simp add: corner_removed_ops_def spares_ends_def example_defs polygon_defs)

section \<open>Plot store: snapshots and the two stacks\<close>

lemma save_state_plots [simp]: "plots (save_state_for_undo s) = plots s"
  by (simp add: save_state_for_undo_def Let_def)

lemma save_state_redo [simp]: "redo_stack (save_state_for_undo s) = []"
  by (simp add: save_state_for_undo_def Let_def)

lemma save_state_undo:
  "undo_stack (save_state_for_undo s) =
     (if 100 \<le> length (undo_stack s) then tl (undo_stack s @ [copy_state (plots s)])
      else undo_stack s @ [copy_state (plots s)])"
  by (auto simp: save_state_for_undo_def Let_def)

lemma save_state_undo_nonempty: "undo_stack (save_state_for_undo s) \<noteq> []"
  by (cases "undo_stack s") (auto simp: save_state_undo)

text \<open>A call that takes its snapshot changes the stacks as \<^verbatim>\<open>_save_state_for_undo\<close>
  does.\<close>

lemma mutating_op_stacks:
  assumes "op_mutates s x"
  shows "undo_stack (apply_store_op s x) = undo_stack (save_state_for_undo s)"
    and "redo_stack (apply_store_op s x) = []"
  using assms
  by (cases x; simp add: add_plot_def remove_plot_def clear_def Let_def split: if_splits)+

lemma undo_empty: "undo_stack s = [] \<Longrightarrow> undo s = (False, s)"
  by (simp add: undo_def)

lemma undo_nonempty:
  "undo_stack s \<noteq> [] \<Longrightarrow>
     fst (undo s) \<and> undo_stack (snd (undo s)) = butlast (undo_stack s)
     \<and> redo_stack (snd (undo s)) = redo_stack s @ [copy_state (plots s)]
     \<and> plots (snd (undo s)) = map (apsnd (set_update True)) (last (undo_stack s))"
  by (simp add: undo_def Let_def)

lemma redo_empty: "redo_stack s = [] \<Longrightarrow> redo s = (False, s)"
  by (simp add: redo_def)

lemma redo_nonempty:
  "redo_stack s \<noteq> [] \<Longrightarrow>
     fst (redo s) \<and> redo_stack (snd (redo s)) = butlast (redo_stack s)
     \<and> undo_stack (snd (redo s)) = undo_stack s @ [copy_state (plots s)]
     \<and> plots (snd (redo s)) = map (apsnd (set_update True)) (last (redo_stack s))"
  by (simp add: redo_def Let_def)

text \<open>
  C4. Any call that takes its snapshot (\<^verbatim>\<open>add_plot\<close>, a \<^verbatim>\<open>remove_plot\<close> that finds
  its id, \<^verbatim>\<open>clear\<close>, the public \<^verbatim>\<open>save_state_for_undo\<close>) leaves the redo stack empty,
  in any store: \<^verbatim>\<open>redo\<close> then returns \<open>False\<close> and changes nothing. After the next
  \<^verbatim>\<open>undo\<close>, which succeeds, \<^verbatim>\<open>redo\<close> succeeds again.
\<close>

theorem mutation_clears_redo:
  assumes "op_mutates s x"
  shows "redo_stack (apply_store_op s x) = []
       \<and> redo (apply_store_op s x) = (False, apply_store_op s x)
       \<and> fst (undo (apply_store_op s x))
       \<and> fst (redo (snd (undo (apply_store_op s x))))"
proof -
  have r: "redo_stack (apply_store_op s x) = []"
    using mutating_op_stacks(2)[OF assms] .
  have u: "undo_stack (apply_store_op s x) \<noteq> []"
    using mutating_op_stacks(1)[OF assms] save_state_undo_nonempty by simp
  from undo_nonempty[OF u] have "redo_stack (snd (undo (apply_store_op s x))) \<noteq> []"
    by simp
  from redo_nonempty[OF this] undo_nonempty[OF u] r redo_empty[OF r]
  show ?thesis by simp
qed

theorem mutation_clears_redo_witness:
  "redo_stack undone_store \<noteq> []
   \<and> op_mutates undone_store (RemovePlot ''polygon_1'')
   \<and> redo_stack (apply_store_op undone_store (RemovePlot ''polygon_1'')) = []
   \<and> \<not> fst (redo (apply_store_op undone_store (RemovePlot ''polygon_1'')))"
proof -
  have u: "undo_stack (run_store_ops triangle_store_ops Canvas2DPlotData_init) \<noteq> []"
    by (simp add: triangle_store_ops_def remove_plot_def add_plot_def Let_def
        save_state_undo_nonempty)
  have h0: "redo_stack undone_store \<noteq> []"
    unfolding undone_store_def using undo_nonempty[OF u] by simp
  have p: "map fst (plots undone_store) = [''polygon_1'', ''d'']"
    unfolding undone_store_def
    by (simp add: triangle_store_ops_def Canvas2DPlotData_init_def undo_def remove_plot_def
        add_plot_def save_state_for_undo_def copy_state_def Let_def pd_def mk_point_def
        PointData2D_init_def PolygonData2D_init_def triangle_eq)
  have h1: "op_mutates undone_store (RemovePlot ''polygon_1'')"
    by (simp add: remove_plot_def p)
  from mutation_clears_redo[OF h1] h0 h1 show ?thesis by simp
qed

section \<open>Plot store: the bound on the undo history\<close>

lemma snapshots_length [simp]: "length (snapshots ops s) = length ops"
  by (induction ops arbitrary: s) auto

text \<open>After a run of calls that all take their snapshot, the undo stack holds the
  newest 100 of the entries it had and the snapshots taken, in order.\<close>

lemma run_undo_stack:
  assumes "ops_mutate ops s" and "length (undo_stack s) \<le> 100"
  shows "undo_stack (run_store_ops ops s) =
           drop (length (undo_stack s) + length ops - 100) (undo_stack s @ snapshots ops s)"
  using assms
proof (induction ops arbitrary: s)
  case Nil
  then show ?case by simp
next
  case (Cons x xs)
  let ?s' = "apply_store_op s x"
  from Cons.prems have m: "op_mutates s x" and ms: "ops_mutate xs ?s'" by simp_all
  have us: "undo_stack ?s' =
      (if 100 \<le> length (undo_stack s) then tl (undo_stack s @ [copy_state (plots s)])
       else undo_stack s @ [copy_state (plots s)])"
    using mutating_op_stacks(1)[OF m] by (simp add: save_state_undo)
  show ?case
  proof (cases "length (undo_stack s) = 100")
    case True
    then have ne: "undo_stack s \<noteq> []" by auto
    from True us have us': "undo_stack ?s' = tl (undo_stack s) @ [copy_state (plots s)]"
      using ne by simp
    then have len': "length (undo_stack ?s') = 100" using True by simp
    have shift: "drop (length xs) (drop 1 l) = drop (100 + length (x # xs) - 100) l"
      for l :: "plot_dict list"
      by simp
    have "undo_stack (run_store_ops xs ?s') =
            drop (length xs) (undo_stack ?s' @ snapshots xs ?s')"
      using Cons.IH[OF ms] len' by simp
    also have "undo_stack ?s' @ snapshots xs ?s' = drop 1 (undo_stack s @ snapshots (x # xs) s)"
      unfolding us' using ne by (cases "undo_stack s") simp_all
    finally show ?thesis unfolding shift True[symmetric] by simp
  next
    case False
    with Cons.prems(2) have lt: "length (undo_stack s) < 100" by simp
    with us have us': "undo_stack ?s' = undo_stack s @ [copy_state (plots s)]" by simp
    then have len': "length (undo_stack ?s') \<le> 100" using lt by simp
    from Cons.IH[OF ms len'] us' show ?thesis by simp
  qed
qed

lemma undo_flags_eq:
  "undo_flags n s =
     replicate (min n (length (undo_stack s))) True
       @ replicate (n - length (undo_stack s)) False"
proof (induction n arbitrary: s)
  case 0
  then show ?case by simp
next
  case (Suc n)
  show ?case
  proof (cases "undo_stack s = []")
    case True
    then show ?thesis using Suc.IH[of s] by (simp add: undo_empty replicate_Suc[symmetric] del: replicate_Suc)
  next
    case False
    then have "0 < length (undo_stack s)" by simp
    then obtain k where k: "length (undo_stack s) = Suc k" by (cases "length (undo_stack s)") auto
    from undo_nonempty[OF False] Suc.IH[of "snd (undo s)"] k show ?thesis by simp
  qed
qed

lemma no_remove_mutates:
  "\<forall>x \<in> set ops. \<forall>i. x \<noteq> RemovePlot i \<Longrightarrow> ops_mutate ops s"
proof (induction ops arbitrary: s)
  case Nil
  then show ?case by simp
next
  case (Cons y ys)
  then show ?case by (cases y) auto
qed

text \<open>
  C3. After 150 store calls that each take a snapshot, starting from a new store, the
  undo stack has exactly 100 entries: the 150 snapshots taken without the oldest 50.
  Then \<^verbatim>\<open>undo\<close> returns \<open>True\<close> 100 times in a row and \<open>False\<close> the 101st time.
\<close>

theorem history_bound:
  assumes "length ops = 150" and "ops_mutate ops Canvas2DPlotData_init"
  shows "length (undo_stack (run_store_ops ops Canvas2DPlotData_init)) = 100
       \<and> undo_stack (run_store_ops ops Canvas2DPlotData_init)
           = drop 50 (snapshots ops Canvas2DPlotData_init)
       \<and> undo_flags 101 (run_store_ops ops Canvas2DPlotData_init)
           = replicate 100 True @ [False]"
proof -
  have e: "undo_stack Canvas2DPlotData_init = []" by (simp add: Canvas2DPlotData_init_def)
  have st: "undo_stack (run_store_ops ops Canvas2DPlotData_init)
              = drop 50 (snapshots ops Canvas2DPlotData_init)"
    using run_undo_stack[OF assms(2)] assms(1) e by simp
  then have len: "length (undo_stack (run_store_ops ops Canvas2DPlotData_init)) = 100"
    using assms(1) by simp
  have "undo_flags 101 (run_store_ops ops Canvas2DPlotData_init) = replicate 100 True @ [False]"
    unfolding undo_flags_eq len by (simp add: numeral_eq_Suc)
  with st len show ?thesis by simp
qed

theorem history_bound_witness:
  "length (replicate 150 (AddPlot (Point pd))) = 150
   \<and> length (undo_stack (run_store_ops (replicate 150 (AddPlot (Point pd)))
        Canvas2DPlotData_init)) = 100
   \<and> undo_flags 101 (run_store_ops (replicate 150 (AddPlot (Point pd))) Canvas2DPlotData_init)
        = replicate 100 True @ [False]"
proof -
  have h1: "length (replicate 150 (AddPlot (Point pd))) = 150" by simp
  have h2: "ops_mutate (replicate 150 (AddPlot (Point pd))) Canvas2DPlotData_init"
    by (rule no_remove_mutates) simp
  from history_bound[OF h1 h2] h1 show ?thesis by blast
qed


section \<open>The example stores, evaluated\<close>

lemmas store_defs = Canvas2DPlotData_init_def add_plot_def remove_plot_def clear_def
  save_state_for_undo_def copy_state_def undo_def redo_def Let_def

lemma second_triangle_eq:
  "second_triangle = \<lparr>pg_id = ''polygon_2'', pg_points = [pb, pc, pd, closing_point pb],
                       pg_color = ''g'', pg_closed = True, pg_update = True\<rparr>"
  by (simp add: second_triangle_def example_defs polygon_defs)

lemma two_triangle_store_plots:
  "get_all_plots two_triangle_store = [Polygon triangle, Point pd, Polygon second_triangle]"
  by (simp add: two_triangle_store_def get_all_plots_def store_defs triangle_eq
      second_triangle_eq pd_def mk_point_def PointData2D_init_def)

lemma segment_first_store_plots:
  "get_all_plots segment_first_store = [Polygon segment, Polygon triangle]"
  by (simp add: segment_first_store_def get_all_plots_def store_defs triangle_eq segment_eq)

lemma caller_closed_store_plots:
  "get_all_plots caller_closed_store = [Polygon caller_closed]"
  by (simp add: caller_closed_store_def get_all_plots_def store_defs caller_closed_eq)

section \<open>Boundary and obstacle extraction: what is returned\<close>

lemma ring_of_eq:
  "ring_of ps = (if ps \<noteq> [] \<and> coords (hd ps) = coords (last ps)
                 then map coords (butlast ps) else map coords ps)"
proof -
  have "(\<lambda>point. (pt_x point, pt_y point)) = coords"
    by (simp add: fun_eq_iff coords_def)
  then have r: "ring_of ps = (if map coords ps \<noteq> [] \<and> hd (map coords ps) = last (map coords ps)
                              then butlast (map coords ps) else map coords ps)"
    by (simp add: ring_of_def Let_def)
  show ?thesis
  proof (cases "ps = []")
    case True
    then show ?thesis by (simp add: ring_of_def)
  next
    case False
    then show ?thesis unfolding r by (simp add: hd_map last_map map_butlast)
  qed
qed

lemma ring_of_synthetic:
  assumes "us \<noteq> []"
  shows "ring_of (us @ [closing_point (hd us)]) = map coords us"
  using assms
  by (simp add: ring_of_eq coords_def closing_point_def PointData2D_init_def)

lemma ring_of_nonempty: "2 \<le> length ps \<Longrightarrow> ring_of ps \<noteq> []"
  by (cases ps; cases "tl ps") (auto simp: ring_of_eq)

lemma boundary_scan_eq:
  "boundary_scan ps =
     (case filter (\<lambda>g. 3 \<le> length (pg_points g)) (polygons_of ps) of
        [] \<Rightarrow> [] | g # rest \<Rightarrow> ring_of (pg_points g))"
  by (induction ps rule: boundary_scan.induct) simp_all

lemma filter_is_polygon: "filter is_polygon ps = map Polygon (polygons_of ps)"
  by (induction ps rule: polygons_of.induct) simp_all

lemma obstacle_scan_eq:
  "obstacle_scan (map Polygon gs) =
     map (\<lambda>g. ring_of (pg_points g)) (filter (\<lambda>g. 3 \<le> length (pg_points g)) gs)"
  by (induction gs) (simp_all add: ring_of_nonempty Let_def)

lemma extract_obstacles_eq:
  "extract_obstacles s =
     (case filter (\<lambda>g. 3 \<le> length (pg_points g)) (tl (polygons_of (get_all_plots s))) of
        [] \<Rightarrow> None
      | g # rest \<Rightarrow> Some (map (\<lambda>g. ring_of (pg_points g)) (g # rest)))"
proof -
  let ?gs = "polygons_of (get_all_plots s)"
  have scan: "obstacle_scan (tl (map Polygon ?gs))
          = map (\<lambda>g. ring_of (pg_points g)) (filter (\<lambda>g. 3 \<le> length (pg_points g)) (tl ?gs))"
    using obstacle_scan_eq[of "tl ?gs"] by (simp add: map_tl)
  have short: "tl ?gs = []" if "\<not> 1 < length ?gs"
    using that by (cases ?gs) auto
  show ?thesis
    unfolding extract_obstacles_def filter_is_polygon Let_def
    using scan short
    by (cases "1 < length ?gs") (auto split: list.splits)
qed

text \<open>
  C8, as the code has it. The boundary is the list of coordinate pairs of the first
  polygon with at least three points (empty if there is none), without its last pair
  when that pair equals the first; for a ring that ends in the closing point
  synthesised from its first point this strips that point. When the first polygon of
  the store has at least three points, the obstacles are the pairs, stripped the same
  way, of every later polygon with at least three points, and \<open>None\<close> if there is no
  such polygon.
\<close>

theorem extraction_rings:
  "extract_boundary s =
     (case big_polygons s of [] \<Rightarrow> [] | g # rest \<Rightarrow> ring_of (pg_points g))
   \<and> (first_polygon_big s \<longrightarrow>
        extract_obstacles s =
          (case tl (big_polygons s) of
             [] \<Rightarrow> None
           | g # rest \<Rightarrow> Some (map (\<lambda>g. ring_of (pg_points g)) (g # rest))))
   \<and> ring_of ps = (if ps \<noteq> [] \<and> coords (hd ps) = coords (last ps)
                    then map coords (butlast ps) else map coords ps)
   \<and> (us \<noteq> [] \<longrightarrow> ring_of (us @ [closing_point (hd us)]) = map coords us)"
proof -
  have b: "extract_boundary s =
     (case big_polygons s of [] \<Rightarrow> [] | g # rest \<Rightarrow> ring_of (pg_points g))"
    by (simp add: extract_boundary_def big_polygons_def boundary_scan_eq)
  have o: "extract_obstacles s =
          (case tl (big_polygons s) of
             [] \<Rightarrow> None
           | g # rest \<Rightarrow> Some (map (\<lambda>g. ring_of (pg_points g)) (g # rest)))"
    if "first_polygon_big s"
  proof -
    from that have "tl (big_polygons s)
        = filter (\<lambda>g. 3 \<le> length (pg_points g)) (tl (polygons_of (get_all_plots s)))"
      by (cases "polygons_of (get_all_plots s)")
         (simp_all add: first_polygon_big_def big_polygons_def)
    then show ?thesis by (simp add: extract_obstacles_eq)
  qed
  from b o ring_of_eq[of ps] ring_of_synthetic[of us] show ?thesis by blast
qed

theorem extraction_rings_witness:
  "first_polygon_big two_triangle_store
   \<and> extract_boundary two_triangle_store = map coords [pa, pb, pc]
   \<and> extract_obstacles two_triangle_store = Some [map coords [pb, pc, pd]]"
proof -
  have p: "polygons_of (get_all_plots two_triangle_store) = [triangle, second_triangle]"
    by (simp add: two_triangle_store_plots)
  have h: "first_polygon_big two_triangle_store"
    by (simp add: first_polygon_big_def p triangle_eq)
  have big: "big_polygons two_triangle_store = [triangle, second_triangle]"
    by (simp add: big_polygons_def p triangle_eq second_triangle_eq)
  have ne: "[pa, pb, pc] \<noteq> []" "[pb, pc, pd] \<noteq> []" by simp_all
  have r1: "ring_of (pg_points triangle) = map coords [pa, pb, pc]"
    using extraction_rings[of two_triangle_store "[]" "[pa, pb, pc]"] ne
    by (simp add: triangle_eq)
  have r2: "ring_of (pg_points second_triangle) = map coords [pb, pc, pd]"
    using extraction_rings[of two_triangle_store "[]" "[pb, pc, pd]"] ne
    by (simp add: second_triangle_eq)
  from extraction_rings[of two_triangle_store "[]" "[pa, pb, pc]"] h
  show ?thesis unfolding big by (simp add: r1 r2)
qed

text \<open>
  Two stores on which the extraction does more, or less, than strip synthesised
  closing points and skip the boundary. The last pair is dropped by comparing coordinates:
  from a ring whose three points all come from the caller, the third repeating the
  first, the boundary keeps two pairs although no closing point was synthesised.
  And \<^verbatim>\<open>_extract_obstacles\<close> skips the first polygon whatever its size, while
  \<^verbatim>\<open>_extract_boundary\<close> skips polygons with fewer than three points: with a two-point
  polygon stored before a triangle, the triangle is the boundary and also the only
  obstacle.
\<close>

theorem extraction_rings_counterexample:
  "pg_points caller_closed = [pa, pb, pe]
   \<and> list_all pt_deletable (pg_points caller_closed)
   \<and> extract_boundary caller_closed_store = map coords [pa, pb]
   \<and> extract_boundary segment_first_store = map coords [pa, pb, pc]
   \<and> extract_obstacles segment_first_store = Some [map coords [pa, pb, pc]]"
proof -
  have "extract_boundary caller_closed_store = map coords [pa, pb]"
    by (simp add: extract_boundary_def caller_closed_store_plots caller_closed_eq ring_of_eq
        coords_def pa_def pe_def mk_point_def PointData2D_init_def)
  moreover have "ring_of (pg_points triangle) = map coords [pa, pb, pc]"
    using ring_of_synthetic[of "[pa, pb, pc]"] by (simp add: triangle_eq)
  moreover have "list_all pt_deletable (pg_points caller_closed)"
    by (simp add: caller_closed_eq pa_def pb_def pe_def mk_point_def PointData2D_init_def)
  ultimately show ?thesis
    by (simp add: extract_boundary_def extract_obstacles_def segment_first_store_plots
        segment_eq triangle_eq caller_closed_eq Let_def)
qed


section \<open>Plot store: undo and redo in sequence\<close>

lemma redo_flags_eq:
  "redo_flags n s =
     replicate (min n (length (redo_stack s))) True
       @ replicate (n - length (redo_stack s)) False"
proof (induction n arbitrary: s)
  case 0
  then show ?case by simp
next
  case (Suc n)
  show ?case
  proof (cases "redo_stack s = []")
    case True
    then show ?thesis using Suc.IH[of s]
      by (simp add: redo_empty replicate_Suc[symmetric] del: replicate_Suc)
  next
    case False
    then have "0 < length (redo_stack s)" by simp
    then obtain k where k: "length (redo_stack s) = Suc k"
      by (cases "length (redo_stack s)") auto
    from redo_nonempty[OF False] Suc.IH[of "snd (redo s)"] k show ?thesis by simp
  qed
qed

text \<open>\<open>n\<close> undos on a stack of at least \<open>n\<close> entries restore the \<open>n\<close>-th entry from
  the top; the first entry they push on the redo stack is the copy of the plots they
  started from.\<close>

lemma undo_times_restores:
  assumes "0 < n" and "n \<le> length (undo_stack s)"
  shows "plots (undo_times n s)
           = map (apsnd (set_update True)) (undo_stack s ! (length (undo_stack s) - n))
       \<and> hd (redo_stack (undo_times n s)) = hd (redo_stack s @ [copy_state (plots s)])
       \<and> length (redo_stack (undo_times n s)) = length (redo_stack s) + n"
  using assms
proof (induction n arbitrary: s)
  case 0
  then show ?case by simp
next
  case (Suc n)
  from Suc.prems have ne: "undo_stack s \<noteq> []" by auto
  note u = undo_nonempty[OF ne]
  show ?case
  proof (cases "n = 0")
    case True
    with u ne show ?thesis by (simp add: last_conv_nth)
  next
    case False
    then have n: "0 < n" by simp
    from Suc.prems u have le: "n \<le> length (undo_stack (snd (undo s)))" by simp
    have idx: "butlast (undo_stack s) ! (length (butlast (undo_stack s)) - n)
                 = undo_stack s ! (length (undo_stack s) - Suc n)"
      using n Suc.prems by (simp add: nth_butlast)
    from Suc.IH[OF n le] u idx show ?thesis by (simp add: hd_append)
  qed
qed

lemma redo_times_restores:
  assumes "0 < n" and "n \<le> length (redo_stack s)"
  shows "plots (redo_times n s)
           = map (apsnd (set_update True)) (redo_stack s ! (length (redo_stack s) - n))"
  using assms
proof (induction n arbitrary: s)
  case 0
  then show ?case by simp
next
  case (Suc n)
  from Suc.prems have ne: "redo_stack s \<noteq> []" by auto
  note r = redo_nonempty[OF ne]
  show ?case
  proof (cases "n = 0")
    case True
    with r ne show ?thesis by (simp add: last_conv_nth)
  next
    case False
    then have n: "0 < n" by simp
    from Suc.prems r have le: "n \<le> length (redo_stack (snd (redo s)))" by simp
    have idx: "butlast (redo_stack s) ! (length (butlast (redo_stack s)) - n)
                 = redo_stack s ! (length (redo_stack s) - Suc n)"
      using n Suc.prems by (simp add: nth_butlast)
    from Suc.IH[OF n le] r idx show ?thesis by simp
  qed
qed

lemma run_redo_stack:
  "ops_mutate ops s \<Longrightarrow> ops \<noteq> [] \<Longrightarrow> redo_stack (run_store_ops ops s) = []"
proof (induction ops arbitrary: s)
  case Nil
  then show ?case by simp
next
  case (Cons y ys)
  show ?case
  proof (cases "ys = []")
    case True
    with Cons.prems show ?thesis by (simp add: mutating_op_stacks(2))
  next
    case False
    with Cons show ?thesis by simp
  qed
qed

subsection \<open>What the copies keep\<close>

lemma copy_point_clean: "copy_point = clean_point"
proof
  fix p show "copy_point p = clean_point p"
    by (cases p) (simp add: copy_point_def clean_point_def PointData2D_init_def)
qed

lemma copy_plot_clean:
  assumes "plot_well_closed p"
  shows "copy_plot p = clean_plot p"
proof (cases p)
  case (Point q)
  then show ?thesis by (simp add: copy_point_clean)
next
  case (Polyline l)
  then show ?thesis by (cases l) (simp add: PolylineData2D_init_def copy_point_clean)
next
  case (Polygon g)
  from Polygon assms have w: "well_closed g" by simp
  show ?thesis
  proof (cases "3 \<le> length (pg_points g)")
    case True
    then have ne: "pg_points g \<noteq> []" by auto
    from True w have c: "pg_closed g"
      and x: "pt_x (hd (pg_points g)) = pt_x (last (pg_points g))"
      and y: "pt_y (hd (pg_points g)) = pt_y (last (pg_points g))"
      by (simp_all add: well_closed_def)
    have "pt_x (hd (map clean_point (pg_points g))) = pt_x (last (map clean_point (pg_points g)))"
         "pt_y (hd (map clean_point (pg_points g))) = pt_y (last (map clean_point (pg_points g)))"
      using ne x y by (simp_all add: hd_map last_map clean_point_def)
    with True c Polygon show ?thesis
      by (cases g) (simp add: PolygonData2D_init_def ensure_closed_def Let_def copy_point_clean)
  next
    case False
    with w have "\<not> pg_closed g" by (simp add: well_closed_def)
    with False Polygon show ?thesis
      by (cases g) (simp add: PolygonData2D_init_def copy_point_clean)
  qed
qed

lemma copy_state_contents: "dict_well_closed d \<Longrightarrow> copy_state d = contents d"
  by (induction d) (auto simp: dict_well_closed_def copy_state_def contents_def copy_plot_clean)

lemma clean_plot_set_update: "clean_plot (set_update b p) = clean_plot p"
  by (cases p) (simp_all add: clean_point_def)

lemma clean_plot_idem: "clean_plot (clean_plot p) = clean_plot p"
  by (cases p) (simp_all add: clean_point_def)

lemma contents_marked: "contents (map (apsnd (set_update b)) d) = contents d"
  by (induction d) (auto simp: contents_def clean_plot_set_update)

lemma contents_idem: "contents (contents d) = contents d"
  by (induction d) (auto simp: contents_def clean_plot_idem)

text \<open>
  The round trip of undo and redo holds when every polygon in the store after the last call is
  as its constructor leaves it: for at most 100 calls that each take a snapshot on a
  new store, as many undos all succeed and empty the store, and as many redos then all
  succeed and bring back the contents after the last call (update flags apart).
\<close>

lemma undo_redo_round_trip:
  assumes "ops_mutate ops Canvas2DPlotData_init" and "length ops \<le> 100"
    and "dict_well_closed (plots (run_store_ops ops Canvas2DPlotData_init))"
  shows "undo_flags (length ops) (run_store_ops ops Canvas2DPlotData_init)
           = replicate (length ops) True
       \<and> plots (undo_times (length ops) (run_store_ops ops Canvas2DPlotData_init)) = []
       \<and> redo_flags (length ops)
           (undo_times (length ops) (run_store_ops ops Canvas2DPlotData_init))
           = replicate (length ops) True
       \<and> contents (plots (redo_times (length ops)
           (undo_times (length ops) (run_store_ops ops Canvas2DPlotData_init))))
           = contents (plots (run_store_ops ops Canvas2DPlotData_init))"
proof (cases "ops = []")
  case True
  then show ?thesis by (simp add: Canvas2DPlotData_init_def)
next
  case False
  let ?S = "run_store_ops ops Canvas2DPlotData_init"
  let ?n = "length ops"
  from False have n: "0 < ?n" by simp
  have e: "undo_stack Canvas2DPlotData_init = []" "plots Canvas2DPlotData_init = []"
    by (simp_all add: Canvas2DPlotData_init_def)
  have us: "undo_stack ?S = snapshots ops Canvas2DPlotData_init"
    using run_undo_stack[OF assms(1)] assms(2) e by simp
  then have len: "length (undo_stack ?S) = ?n" by simp
  have first: "undo_stack ?S ! 0 = []"
    using False unfolding us by (cases ops) (simp_all add: e copy_state_def)
  have rs: "redo_stack ?S = []" using run_redo_stack[OF assms(1) False] .
  from undo_times_restores[OF n, of ?S] len first rs
  have u1: "plots (undo_times ?n ?S) = []"
    and u2: "hd (redo_stack (undo_times ?n ?S)) = copy_state (plots ?S)"
    and u3: "length (redo_stack (undo_times ?n ?S)) = ?n"
    by simp_all
  from u3 n have "redo_stack (undo_times ?n ?S) \<noteq> []" by auto
  then have u2': "redo_stack (undo_times ?n ?S) ! 0 = copy_state (plots ?S)"
    using u2 by (simp add: hd_conv_nth)
  have "plots (redo_times ?n (undo_times ?n ?S))
          = map (apsnd (set_update True)) (copy_state (plots ?S))"
    using redo_times_restores[OF n, of "undo_times ?n ?S"] u3 u2' by simp
  then have "contents (plots (redo_times ?n (undo_times ?n ?S))) = contents (plots ?S)"
    by (simp add: contents_marked copy_state_contents[OF assms(3)] contents_idem)
  moreover have "undo_flags ?n ?S = replicate ?n True"
    unfolding undo_flags_eq len by simp
  moreover have "redo_flags ?n (undo_times ?n ?S) = replicate ?n True"
    unfolding redo_flags_eq u3 by simp
  ultimately show ?thesis using u1 by simp
qed

lemma undo_redo_round_trip_triangle:
  "undo_flags 3 (run_store_ops triangle_store_ops Canvas2DPlotData_init) = [True, True, True]
   \<and> plots (undo_times 3 (run_store_ops triangle_store_ops Canvas2DPlotData_init)) = []
   \<and> contents (plots (redo_times 3
         (undo_times 3 (run_store_ops triangle_store_ops Canvas2DPlotData_init))))
       = contents (plots (run_store_ops triangle_store_ops Canvas2DPlotData_init))"
proof -
  have p: "plots (run_store_ops triangle_store_ops Canvas2DPlotData_init)
             = [(''polygon_1'', Polygon triangle)]"
    by (simp add: triangle_store_ops_def store_defs triangle_eq pd_def mk_point_def
        PointData2D_init_def)
  have h1: "ops_mutate triangle_store_ops Canvas2DPlotData_init"
    by (simp add: triangle_store_ops_def store_defs triangle_eq pd_def mk_point_def
        PointData2D_init_def)
  have h2: "length triangle_store_ops \<le> 100" by (simp add: triangle_store_ops_def)
  have h3: "dict_well_closed (plots (run_store_ops triangle_store_ops Canvas2DPlotData_init))"
    unfolding p
    by (simp add: dict_well_closed_def well_closed_def triangle_eq closing_point_def
        PointData2D_init_def)
  have l: "length triangle_store_ops = 3" by (simp add: triangle_store_ops_def)
  from undo_redo_round_trip[OF h1 h2 h3] show ?thesis
    unfolding l by (simp add: numeral_eq_Suc)
qed

text \<open>
  C2 on the code. A polygon whose first corner was removed is still marked closed, but
  its ring no longer ends where it starts. The snapshot copies it through
  \<^verbatim>\<open>PolygonData2D.__init__\<close>, which closes the ring again with a new point. After
  \<^verbatim>\<open>add_plot\<close> of that polygon and of a point, two undos succeed and empty the store,
  two redos succeed, and the polygon then has the four points \<open>b\<close>, \<open>c\<close>, \<open>a_close\<close>,
  \<open>b_close\<close> instead of the three it had after the second call.
\<close>

theorem undo_redo_round_trip_corner:
  "ops_mutate corner_store_ops Canvas2DPlotData_init
   \<and> length corner_store_ops = 2
   \<and> map (\<lambda>e. point_ids (snd e)) (plots corner_store) = [[''b'', ''c'', ''a_close''], [''d'']]
   \<and> undo_flags 2 corner_store = [True, True]
   \<and> plots (undo_times 2 corner_store) = []
   \<and> redo_flags 2 (undo_times 2 corner_store) = [True, True]
   \<and> map (\<lambda>e. point_ids (snd e)) (plots (redo_times 2 (undo_times 2 corner_store)))
       = [[''b'', ''c'', ''a_close'', ''b_close''], [''d'']]
   \<and> contents (plots (redo_times 2 (undo_times 2 corner_store))) \<noteq> contents (plots corner_store)"
proof -
  have p: "plots corner_store = [(''polygon_1'', Polygon corner_removed), (''d'', Point pd)]"
    by (simp add: corner_store_def corner_store_ops_def store_defs corner_removed_eq pd_def
        mk_point_def PointData2D_init_def)
  have u: "undo_stack corner_store
             = [[], [(''polygon_1'', Polygon (PolygonData2D_init ''polygon_1''
                      (map copy_point [pb, pc, closing_point pa]) ''g'' False))]]"
    by (simp add: corner_store_def corner_store_ops_def store_defs corner_removed_eq pd_def
        mk_point_def PointData2D_init_def)
  have r: "redo_stack corner_store = []"
    by (simp add: corner_store_def corner_store_ops_def store_defs)
  have m: "ops_mutate corner_store_ops Canvas2DPlotData_init"
    by (simp add: corner_store_ops_def)
  have ids: "map (\<lambda>e. point_ids (snd e)) (plots corner_store)
               = [[''b'', ''c'', ''a_close''], [''d'']]"
    by (simp add: p corner_removed_eq example_defs closing_point_def PointData2D_init_def)
  have uf: "undo_flags 2 corner_store = [True, True]"
    by (simp add: undo_flags_eq u)
  have ut: "undo_times 2 corner_store
      = \<lparr>plots = [], undo_stack = [],
         redo_stack = [copy_state (plots corner_store),
            copy_state (map (apsnd (set_update True))
              [(''polygon_1'', Polygon (PolygonData2D_init ''polygon_1''
                      (map copy_point [pb, pc, closing_point pa]) ''g'' False))])]\<rparr>"
    by (simp add: numeral_2_eq_2 undo_def u r Let_def)
  have rt: "plots (redo_times 2 (undo_times 2 corner_store))
      = map (apsnd (set_update True)) (copy_state (plots corner_store))"
    unfolding ut by (simp add: numeral_2_eq_2 redo_def Let_def)
  have ids': "map (\<lambda>e. point_ids (snd e)) (plots (redo_times 2 (undo_times 2 corner_store)))
       = [[''b'', ''c'', ''a_close'', ''b_close''], [''d'']]"
    unfolding rt p
    by (simp add: copy_state_def corner_removed_eq example_defs copy_point_def closing_point_def
        PointData2D_init_def PolygonData2D_init_def ensure_closed_def Let_def)
  have rf: "redo_flags 2 (undo_times 2 corner_store) = [True, True]"
    unfolding ut by (simp add: redo_flags_eq)
  have ne: "contents (plots (redo_times 2 (undo_times 2 corner_store)))
              \<noteq> contents (plots corner_store)"
  proof
    assume "contents (plots (redo_times 2 (undo_times 2 corner_store)))
              = contents (plots corner_store)"
    then have "map (\<lambda>e. length (point_ids (snd e)))
                 (contents (plots (redo_times 2 (undo_times 2 corner_store))))
             = map (\<lambda>e. length (point_ids (snd e))) (contents (plots corner_store))"
      by simp
    then show False
      unfolding rt p
      by (simp add: contents_def copy_state_def corner_removed_eq copy_point_def
          PointData2D_init_def PolygonData2D_init_def ensure_closed_def Let_def
          pa_def pb_def mk_point_def closing_point_def)
  qed
  from m ids uf ut rf ids' ne show ?thesis
    by (simp add: corner_store_ops_def)
qed


end
